theory Spec2Isabelle
  imports Complex_Main
begin

section \<open>Document AI batch pipeline utilities (\<open>specialized-pipeline/docai_utils.py\<close>)\<close>

text \<open>
  The module batches the objects of a storage prefix, submits one batch job per batch to
  the document processing service, reads the service's JSON output back, flattens the
  entities of a document into a dictionary and finally archives the inputs and deletes
  the intermediate files. Pure parts are HOL functions. Calls to the storage and
  processing clients are calls to an environment record over a world state \<open>'w\<close>; each
  function threads the world and a trace of the calls it made (with their outcomes) and
  of the lines it printed. An exception is the \<open>Inl\<close> branch of a sum.
\<close>

subsection \<open>Data\<close>

text \<open>The names imported from \<open>consts\<close>; their values are parameters of the model.\<close>

record constants =
  PROJECT_ID :: string
  LOCATION :: string
  PROCESSOR_ID :: string
  BATCH_MAX_FILES :: int
  TIMEOUT :: int
  ACCEPTED_MIME_TYPES :: "string list"

text \<open>
  Exceptions. \<open>ValueError\<close> carries the two numbers its message is formatted from;
  \<open>ApiError\<close> is any exception raised by a client call.
\<close>

datatype error =
    ValueError int int
  | KeyError string
  | TypeError
  | JSONDecodeError
  | ApiError string

text \<open>\<open>documentai.Document.Entity\<close>, with the three attributes the module reads.
  The attribute \<open>normalized_value\<close> is \<open>None\<close> when \<open>getattr\<close> falls back to
  its default, and a \<open>NormalizedValue\<close> message otherwise: its \<open>text\<close>, and
  whether one of its other fields (the structured value) holds a truthy value. The
  code tests the message with \<open>if normalized_value\<close>; a message is truthy when one
  of its fields is, so a message with empty text and nothing else is falsy.\<close>

record normalized_value =
  nv_text :: string
  nv_structured_value :: bool

definition truthy :: "normalized_value \<Rightarrow> bool" where
  "truthy nv = (if nv_text nv = [] then nv_structured_value nv else True)"

record entity =
  entity_type :: string
  mention_text :: string
  normalized_value :: "normalized_value option"

record document =
  entities :: "entity list"

text \<open>\<open>storage.Blob\<close>: a handle on an object, and \<open>documentai.GcsDocument\<close>.\<close>

record blob =
  blob_bucket :: string
  blob_name :: string
  blob_content_type :: string

record gcs_document =
  gcs_uri :: string
  mime_type :: string

record batch_process_request =
  req_name :: string
  req_input_documents :: "gcs_document list"
  req_document_output_config :: string

text \<open>The value \<open>json.loads\<close> returns; an object keeps its keys in order.\<close>

datatype json =
    JNull
  | JBool bool
  | JNumber int
  | JString string
  | JArray "json list"
  | JObject "(string \<times> json) list"

text \<open>The lines the module prints, by format string, with the values formatted in.\<close>

datatype diagnostic =
    InvalidMimeType string string
  | ProcessingBatch nat nat
  | WaitingForOperation string
  | FetchingFrom string
  | FailedToParse string
  | SkippingNonSupported string
  | Moving string string string
  | Deleting string

text \<open>One entry of the trace: a client call with its outcome, or a printed line.\<close>

datatype event =
    ListBlobs string string "blob list"
  | DownloadAsText blob "error + string"
  | CopyBlob blob string string "error option"
  | DeleteBlob blob "error option"
  | BatchProcessDocuments batch_process_request "error + string"
  | OperationResult string int "error option"
  | Print diagnostic

text \<open>
  The collaborators: the storage client, the processing client and the two library
  parsers. A call that can raise returns the exception (\<open>Inl\<close> or \<open>Some\<close>) and the
  next world. \<open>list_blobs\<close> is taken at the point where the listing is iterated.
  \<open>Document_from_json\<close> stands for \<open>Document.from_json(json.dumps(d).encode())\<close>,
  with \<open>None\<close> for \<open>ParseError\<close>; \<open>json_loads\<close> returns \<open>None\<close> for
  \<open>json.JSONDecodeError\<close>.
\<close>

record 'w env =
  list_blobs :: "'w \<Rightarrow> string \<Rightarrow> string \<Rightarrow> blob list"
  download_as_text :: "'w \<Rightarrow> blob \<Rightarrow> error + string"
  copy_blob :: "'w \<Rightarrow> blob \<Rightarrow> string \<Rightarrow> string \<Rightarrow> error option \<times> 'w"
  blob_delete :: "'w \<Rightarrow> blob \<Rightarrow> error option \<times> 'w"
  client_batch_process_documents :: "'w \<Rightarrow> batch_process_request \<Rightarrow> (error + string) \<times> 'w"
  operation_result :: "'w \<Rightarrow> string \<Rightarrow> int \<Rightarrow> error option \<times> 'w"
  json_loads :: "string \<Rightarrow> json option"
  Document_from_json :: "json \<Rightarrow> document option"

subsection \<open>\<open>extract_document_entities\<close>\<close>

text \<open>\<open>s.replace(old, new)\<close> for one-character \<open>old\<close> and \<open>new\<close>.\<close>

definition str_replace :: "char \<Rightarrow> char \<Rightarrow> string \<Rightarrow> string" where
  "str_replace old new s = map (\<lambda>c. if c = old then new else c) s"

text \<open>A Python dict as an association list in insertion order: \<open>d.update({k: v})\<close>
  overwrites the value of a key in place and appends a new key.\<close>

fun dict_update :: "'k \<Rightarrow> 'v \<Rightarrow> ('k \<times> 'v) list \<Rightarrow> ('k \<times> 'v) list" where
  "dict_update k v [] = [(k, v)]"
| "dict_update k v (p # ps) = (if fst p = k then (k, v) # ps else p # dict_update k v ps)"

definition entity_key :: "entity \<Rightarrow> string" where
  "entity_key e = str_replace (CHR ''/'') (CHR ''_'') (entity_type e)"

definition entity_value :: "entity \<Rightarrow> string" where
  "entity_value e =
     (case normalized_value e of
        None \<Rightarrow> mention_text e
      | Some nv \<Rightarrow> if truthy nv then nv_text nv else mention_text e)"

fun extract_loop :: "entity list \<Rightarrow> (string \<times> string) list \<Rightarrow> (string \<times> string) list" where
  "extract_loop [] document_entities = document_entities"
| "extract_loop (e # es) document_entities =
     extract_loop es (dict_update (entity_key e) (entity_value e) document_entities)"

definition extract_document_entities :: "document \<Rightarrow> (string \<times> string) list" where
  "extract_document_entities doc = extract_loop (entities doc) []"

text \<open>
  The reference the specification describes for \<open>flattenEntities\<close>: a fold over the
  entities in order into a mapping; the key is the type with every slash replaced by
  an underscore, the value is the normalized text when there is one and the raw
  mention text otherwise, and a later entity overwrites an earlier one of the same key.
\<close>

fun slash_to_underscore :: "string \<Rightarrow> string" where
  "slash_to_underscore [] = []"
| "slash_to_underscore (c # cs) =
     (if c = CHR ''/'' then CHR ''_'' else c) # slash_to_underscore cs"

definition flatten_step :: "(string \<rightharpoonup> string) \<Rightarrow> entity \<Rightarrow> (string \<rightharpoonup> string)" where
  "flatten_step m e =
     m(slash_to_underscore (entity_type e) \<mapsto>
         (if normalized_value e \<noteq> None then nv_text (the (normalized_value e))
          else mention_text e))"

definition flattenEntities_reference :: "document \<Rightarrow> (string \<rightharpoonup> string)" where
  "flattenEntities_reference doc = foldl flatten_step Map.empty (entities doc)"

text \<open>
  The same fold with the test the code makes: the normalized text is the value when a
  normalized value is present and truthy.
\<close>

definition flatten_step_truthy ::
  "(string \<rightharpoonup> string) \<Rightarrow> entity \<Rightarrow> (string \<rightharpoonup> string)" where
  "flatten_step_truthy m e =
     m(slash_to_underscore (entity_type e) \<mapsto>
         (if normalized_value e \<noteq> None \<and> truthy (the (normalized_value e))
          then nv_text (the (normalized_value e))
          else mention_text e))"

definition flattenEntities_truthy :: "document \<Rightarrow> (string \<rightharpoonup> string)" where
  "flattenEntities_truthy doc = foldl flatten_step_truthy Map.empty (entities doc)"

subsection \<open>\<open>create_batches\<close>\<close>

definition gcs_document_of :: "string \<Rightarrow> blob \<Rightarrow> gcs_document" where
  "gcs_document_of input_bucket b =
     \<lparr>gcs_uri = ''gs://'' @ input_bucket @ ''/'' @ blob_name b,
      mime_type = blob_content_type b\<rparr>"

text \<open>The \<open>for blob in blob_list\<close> loop; the state is \<open>batches\<close>, \<open>batch\<close> and the trace.\<close>

fun create_batches_loop ::
  "constants \<Rightarrow> string \<Rightarrow> int \<Rightarrow> blob list \<Rightarrow> gcs_document list list \<Rightarrow> gcs_document list \<Rightarrow>
   event list \<Rightarrow> gcs_document list list \<times> gcs_document list \<times> event list" where
  "create_batches_loop c input_bucket batch_size [] batches batch tr = (batches, batch, tr)"
| "create_batches_loop c input_bucket batch_size (b # rest) batches batch tr =
     (if blob_content_type b \<notin> set (ACCEPTED_MIME_TYPES c) then
        create_batches_loop c input_bucket batch_size rest batches batch
          (tr @ [Print (InvalidMimeType (blob_content_type b) (blob_name b))])
      else if int (length batch) = batch_size then
        create_batches_loop c input_bucket batch_size rest (batches @ [batch])
          ([] @ [gcs_document_of input_bucket b]) tr
      else
        create_batches_loop c input_bucket batch_size rest batches
          (batch @ [gcs_document_of input_bucket b]) tr)"

definition create_batches ::
  "constants \<Rightarrow> 'w env \<Rightarrow> string \<Rightarrow> string \<Rightarrow> int \<Rightarrow> 'w \<times> event list \<Rightarrow>
   (error + gcs_document list list) \<times> ('w \<times> event list)" where
  "create_batches c env input_bucket input_prefix batch_size s =
     (if batch_size > BATCH_MAX_FILES c then
        (Inl (ValueError (BATCH_MAX_FILES c) batch_size), s)
      else
        (let blob_list = list_blobs env (fst s) input_bucket input_prefix;
             tr1 = snd s @ [ListBlobs input_bucket input_prefix blob_list]
         in case create_batches_loop c input_bucket batch_size blob_list [] [] tr1 of
              (batches, batch, tr2) \<Rightarrow> (Inr (batches @ [batch]), (fst s, tr2))))"

subsection \<open>\<open>_batch_process_documents\<close>\<close>

definition processor_path :: "string \<Rightarrow> string \<Rightarrow> string \<Rightarrow> string" where
  "processor_path project location processor =
     ''projects/'' @ project @ ''/locations/'' @ location @ ''/processors/'' @ processor"

text \<open>The \<open>for i, batch in enumerate(batches)\<close> loop. An exception of the submission
  or of the wait ends the loop and is the result.\<close>

fun batch_process_loop ::
  "constants \<Rightarrow> 'w env \<Rightarrow> string \<Rightarrow> string \<Rightarrow> nat \<Rightarrow> gcs_document list list \<Rightarrow> string list \<Rightarrow>
   'w \<times> event list \<Rightarrow> (error + string list) \<times> ('w \<times> event list)" where
  "batch_process_loop c env resource_name gcs_output_uri i [] operation_ids s =
     (Inr operation_ids, s)"
| "batch_process_loop c env resource_name gcs_output_uri i (batch # rest) operation_ids s =
     (let tr1 = snd s @ [Print (ProcessingBatch i (length batch))];
          request = \<lparr>req_name = resource_name, req_input_documents = batch,
                     req_document_output_config = gcs_output_uri\<rparr>
      in case client_batch_process_documents env (fst s) request of
           (Inl e, w1) \<Rightarrow> (Inl e, (w1, tr1 @ [BatchProcessDocuments request (Inl e)]))
         | (Inr operation_name, w1) \<Rightarrow>
             (let tr2 = tr1 @ [BatchProcessDocuments request (Inr operation_name),
                               Print (WaitingForOperation operation_name)]
              in case operation_result env w1 operation_name (TIMEOUT c) of
                   (Some e, w2) \<Rightarrow>
                     (Inl e, (w2, tr2 @ [OperationResult operation_name (TIMEOUT c) (Some e)]))
                 | (None, w2) \<Rightarrow>
                     batch_process_loop c env resource_name gcs_output_uri (Suc i) rest
                       (operation_ids @ [operation_name])
                       (w2, tr2 @ [OperationResult operation_name (TIMEOUT c) None])))"

definition batch_process_documents ::
  "constants \<Rightarrow> 'w env \<Rightarrow> string \<Rightarrow> string \<Rightarrow> string \<Rightarrow> int \<Rightarrow> 'w \<times> event list \<Rightarrow>
   (error + string list) \<times> ('w \<times> event list)" where
  "batch_process_documents c env gcs_output_uri input_bucket input_prefix batch_size s =
     (let resource_name = processor_path (PROJECT_ID c) (LOCATION c) (PROCESSOR_ID c)
      in case create_batches c env input_bucket input_prefix batch_size s of
           (Inl e, s1) \<Rightarrow> (Inl e, s1)
         | (Inr batches, s1) \<Rightarrow>
             batch_process_loop c env resource_name gcs_output_uri 0 batches [] s1)"

subsection \<open>\<open>get_document_protos_from_gcs\<close>\<close>

text \<open>\<open>sub in s\<close> on strings.\<close>

fun str_contains :: "string \<Rightarrow> string \<Rightarrow> bool" where
  "str_contains sub [] = (sub = [])"
| "str_contains sub (x # xs) = (take (length sub) (x # xs) = sub \<or> str_contains sub xs)"

text \<open>\<open>del d[k]\<close>: \<open>KeyError\<close> on a dict without the key, \<open>TypeError\<close> on a value
  that is not a dict.\<close>

fun del_item :: "json \<Rightarrow> string \<Rightarrow> error + json" where
  "del_item (JObject kvs) k =
     (if k \<in> fst ` set kvs then Inr (JObject (filter (\<lambda>kv. fst kv \<noteq> k) kvs))
      else Inl (KeyError k))"
| "del_item _ k = Inl TypeError"

text \<open>The block under \<open># Remove large fields\<close>: both deletions are in one \<open>try\<close>,
  whose handler catches \<open>KeyError\<close> only.\<close>

definition remove_large_fields :: "json \<Rightarrow> error + json" where
  "remove_large_fields document_dict =
     (case del_item document_dict ''pages'' of
        Inl (KeyError k) \<Rightarrow> Inr document_dict
      | Inl e \<Rightarrow> Inl e
      | Inr d1 \<Rightarrow>
          (case del_item d1 ''text'' of
             Inl (KeyError k) \<Rightarrow> Inr d1
           | Inl e \<Rightarrow> Inl e
           | Inr d2 \<Rightarrow> Inr d2))"

fun get_document_protos_loop ::
  "'w env \<Rightarrow> blob list \<Rightarrow> document list \<Rightarrow> 'w \<times> event list \<Rightarrow>
   (error + document list) \<times> ('w \<times> event list)" where
  "get_document_protos_loop env [] document_protos s = (Inr document_protos, s)"
| "get_document_protos_loop env (b # rest) document_protos s =
     (let tr1 = snd s @ [Print (FetchingFrom (blob_name b))]
      in if str_contains ''.json'' (blob_name b) then
           (let r = download_as_text env (fst s) b;
                tr2 = tr1 @ [DownloadAsText b r]
            in case r of
                 Inl e \<Rightarrow> (Inl e, (fst s, tr2))
               | Inr blob_data \<Rightarrow>
                   (case json_loads env blob_data of
                      None \<Rightarrow> (Inl JSONDecodeError, (fst s, tr2))
                    | Some document_dict \<Rightarrow>
                        (case remove_large_fields document_dict of
                           Inl e \<Rightarrow> (Inl e, (fst s, tr2))
                         | Inr d \<Rightarrow>
                             (case Document_from_json env d of
                                None \<Rightarrow>
                                  get_document_protos_loop env rest document_protos
                                    (fst s, tr2 @ [Print (FailedToParse (blob_name b))])
                              | Some document_proto \<Rightarrow>
                                  get_document_protos_loop env rest
                                    (document_protos @ [document_proto]) (fst s, tr2)))))
         else
           get_document_protos_loop env rest document_protos
             (fst s, tr1 @ [Print (SkippingNonSupported (blob_name b))]))"

definition get_document_protos_from_gcs ::
  "'w env \<Rightarrow> string \<Rightarrow> string \<Rightarrow> 'w \<times> event list \<Rightarrow>
   (error + document list) \<times> ('w \<times> event list)" where
  "get_document_protos_from_gcs env output_bucket output_directory s =
     (let blob_list = list_blobs env (fst s) output_bucket output_directory
      in get_document_protos_loop env blob_list []
           (fst s, snd s @ [ListBlobs output_bucket output_directory blob_list]))"

subsection \<open>\<open>cleanup_gcs\<close>\<close>

text \<open>The copy loop: a source blob joins the delete queue after its copy returned.\<close>

fun copy_loop ::
  "'w env \<Rightarrow> string \<Rightarrow> string \<Rightarrow> blob list \<Rightarrow> blob list \<Rightarrow> 'w \<times> event list \<Rightarrow>
   (error + blob list) \<times> ('w \<times> event list)" where
  "copy_loop env input_bucket archive_bucket [] delete_queue s = (Inr delete_queue, s)"
| "copy_loop env input_bucket archive_bucket (source_blob # rest) delete_queue s =
     (let tr1 = snd s @ [Print (Moving input_bucket archive_bucket (blob_name source_blob))]
      in case copy_blob env (fst s) source_blob archive_bucket (blob_name source_blob) of
           (Some e, w1) \<Rightarrow>
             (Inl e, (w1, tr1 @ [CopyBlob source_blob archive_bucket (blob_name source_blob)
                                   (Some e)]))
         | (None, w1) \<Rightarrow>
             copy_loop env input_bucket archive_bucket rest (delete_queue @ [source_blob])
               (w1, tr1 @ [CopyBlob source_blob archive_bucket (blob_name source_blob) None]))"

fun delete_loop ::
  "'w env \<Rightarrow> blob list \<Rightarrow> 'w \<times> event list \<Rightarrow> (error + unit) \<times> ('w \<times> event list)" where
  "delete_loop env [] s = (Inr (), s)"
| "delete_loop env (b # rest) s =
     (let tr1 = snd s @ [Print (Deleting (blob_name b))]
      in case blob_delete env (fst s) b of
           (Some e, w1) \<Rightarrow> (Inl e, (w1, tr1 @ [DeleteBlob b (Some e)]))
         | (None, w1) \<Rightarrow> delete_loop env rest (w1, tr1 @ [DeleteBlob b None]))"

definition cleanup_gcs ::
  "'w env \<Rightarrow> string \<Rightarrow> string \<Rightarrow> string \<Rightarrow> string \<Rightarrow> string \<Rightarrow> 'w \<times> event list \<Rightarrow>
   (error + unit) \<times> ('w \<times> event list)" where
  "cleanup_gcs env input_bucket input_prefix output_bucket output_directory archive_bucket s =
     (let intermediate_files = list_blobs env (fst s) output_bucket output_directory;
          tr1 = snd s @ [ListBlobs output_bucket output_directory intermediate_files];
          delete_queue = [] @ intermediate_files;
          source_blobs = list_blobs env (fst s) input_bucket input_prefix;
          tr2 = tr1 @ [ListBlobs input_bucket input_prefix source_blobs]
      in case copy_loop env input_bucket archive_bucket source_blobs delete_queue (fst s, tr2) of
           (Inl e, s1) \<Rightarrow> (Inl e, s1)
         | (Inr delete_queue', s1) \<Rightarrow> delete_loop env delete_queue' s1)"

subsection \<open>An in-memory environment\<close>

text \<open>
  A small instance of the collaborators, for running the functions on concrete inputs:
  the world is the list of stored objects with their contents, in listing order. A
  listing returns the objects of a bucket whose names start with the prefix, a copy
  writes (or overwrites) the destination object, and a copy, download or delete of an
  object that is not there raises. The processing service accepts every request and
  every wait succeeds. The parsers know four payloads: \<open>{}\<close>, the empty document; an
  object with the one field \<open>x\<close>, which the document schema does not have; \<open>[]\<close>,
  valid JSON that is not an object; anything else is not JSON.
\<close>

type_synonym mem = "(blob \<times> string) list"

definition same_object :: "blob \<Rightarrow> blob \<Rightarrow> bool" where
  "same_object a b = (blob_bucket a = blob_bucket b \<and> blob_name a = blob_name b)"

definition str_startswith :: "string \<Rightarrow> string \<Rightarrow> bool" where
  "str_startswith s prefix = (take (length prefix) s = prefix)"

definition mem_list_blobs :: "mem \<Rightarrow> string \<Rightarrow> string \<Rightarrow> blob list" where
  "mem_list_blobs w bucket prefix =
     map fst (filter (\<lambda>obj. blob_bucket (fst obj) = bucket \<and>
                             str_startswith (blob_name (fst obj)) prefix) w)"

definition mem_download_as_text :: "mem \<Rightarrow> blob \<Rightarrow> error + string" where
  "mem_download_as_text w b =
     (case find (\<lambda>obj. same_object (fst obj) b) w of
        None \<Rightarrow> Inl (ApiError ''NotFound'')
      | Some obj \<Rightarrow> Inr (snd obj))"

definition mem_copy_blob :: "mem \<Rightarrow> blob \<Rightarrow> string \<Rightarrow> string \<Rightarrow> error option \<times> mem" where
  "mem_copy_blob w b destination_bucket new_name =
     (case find (\<lambda>obj. same_object (fst obj) b) w of
        None \<Rightarrow> (Some (ApiError ''NotFound''), w)
      | Some obj \<Rightarrow>
          (let target = \<lparr>blob_bucket = destination_bucket, blob_name = new_name,
                         blob_content_type = blob_content_type (fst obj)\<rparr>
           in (None, filter (\<lambda>obj'. \<not> same_object (fst obj') target) w @ [(target, snd obj)])))"

definition mem_blob_delete :: "mem \<Rightarrow> blob \<Rightarrow> error option \<times> mem" where
  "mem_blob_delete w b =
     (if list_ex (\<lambda>obj. same_object (fst obj) b) w
      then (None, filter (\<lambda>obj. \<not> same_object (fst obj) b) w)
      else (Some (ApiError ''NotFound''), w))"

definition mem_batch_process_documents ::
  "mem \<Rightarrow> batch_process_request \<Rightarrow> (error + string) \<times> mem" where
  "mem_batch_process_documents w request =
     (Inr (''operations/'' @ (case req_input_documents request of
                                [] \<Rightarrow> ''empty'' | d # ds \<Rightarrow> gcs_uri d)), w)"

definition mem_operation_result :: "mem \<Rightarrow> string \<Rightarrow> int \<Rightarrow> error option \<times> mem" where
  "mem_operation_result w operation_name timeout = (None, w)"

definition mem_json_loads :: "string \<Rightarrow> json option" where
  \<open>mem_json_loads data =
     (if data = ''{}'' then Some (JObject [])
      else if data = ''{"x": 1}'' then Some (JObject [(''x'', JNumber 1)])
      else if data = ''[]'' then Some (JArray [])
      else None)\<close>

definition mem_Document_from_json :: "json \<Rightarrow> document option" where
  "mem_Document_from_json d = (if d = JObject [] then Some \<lparr>entities = []\<rparr> else None)"

definition mem_env :: "mem env" where
  "mem_env =
     \<lparr>list_blobs = mem_list_blobs,
      download_as_text = mem_download_as_text,
      copy_blob = mem_copy_blob,
      blob_delete = mem_blob_delete,
      client_batch_process_documents = mem_batch_process_documents,
      operation_result = mem_operation_result,
      json_loads = mem_json_loads,
      Document_from_json = mem_Document_from_json\<rparr>"

text \<open>Constants and objects for the examples.\<close>

definition example_consts :: constants where
  "example_consts =
     \<lparr>PROJECT_ID = ''p'', LOCATION = ''us'', PROCESSOR_ID = ''x'', BATCH_MAX_FILES = 2,
      TIMEOUT = 60, ACCEPTED_MIME_TYPES = [''application/pdf'', ''image/png'']\<rparr>"

definition pdf :: "string \<Rightarrow> string \<Rightarrow> blob" where
  "pdf bucket name =
     \<lparr>blob_bucket = bucket, blob_name = name, blob_content_type = ''application/pdf''\<rparr>"

definition json_blob :: "string \<Rightarrow> string \<Rightarrow> blob" where
  "json_blob bucket name =
     \<lparr>blob_bucket = bucket, blob_name = name, blob_content_type = ''application/json''\<rparr>"

text \<open>A document with a normalized date and a plain total.\<close>

definition example_document :: document where
  "example_document =
     \<lparr>entities =
        [\<lparr>entity_type = ''due/date'', mention_text = ''Jan 2'',
          normalized_value = Some \<lparr>nv_text = ''2020-01-02'', nv_structured_value = True\<rparr>\<rparr>,
         \<lparr>entity_type = ''total'', mention_text = ''12'', normalized_value = None\<rparr>]\<rparr>"

definition example_inputs :: mem where
  "example_inputs =
     [(pdf ''in'' ''a.pdf'', ''A''), (json_blob ''in'' ''n.json'', ''{}''),
      (pdf ''in'' ''b.pdf'', ''B''), (pdf ''in'' ''c.pdf'', ''C'')]"

text \<open>The in-memory environment with a service whose jobs never finish in time.\<close>

definition timeout_env :: "mem env" where
  "timeout_env =
     mem_env\<lparr>operation_result := \<lambda>w operation_name timeout. (Some (ApiError ''DeadlineExceeded''), w)\<rparr>"

text \<open>Two output directories: a well-formed record beside one that is not JSON, and a
  well-formed record beside one that is JSON but not of the document schema.\<close>

definition example_outputs :: mem where
  "example_outputs =
     [(json_blob ''out'' ''dir/0.json'', ''{}''), (json_blob ''out'' ''dir/1.json'', ''{'')]"

definition example_outputs_schema :: mem where
  \<open>example_outputs_schema =
     [(json_blob ''out'' ''dir/0.json'', ''{"x": 1}''), (json_blob ''out'' ''dir/1.json'', ''{}'')]\<close>

text \<open>A store with two inputs and one intermediate file, the store and the trace a
  cleanup of it ends with, and the in-memory environment with a storage that refuses
  to copy one object, and one with a service that refuses every submission.\<close>

definition refusing_env :: "mem env" where
  "refusing_env =
     mem_env\<lparr>client_batch_process_documents :=
       \<lambda>w request. (Inl (ApiError ''ServiceUnavailable''), w)\<rparr>"

definition forbidden_env :: "mem env" where
  "forbidden_env =
     mem_env\<lparr>copy_blob := \<lambda>w b destination_bucket new_name.
       if blob_name b = ''a.pdf'' then (Some (ApiError ''Forbidden''), w)
       else mem_copy_blob w b destination_bucket new_name\<rparr>"

definition example_store :: mem where
  "example_store =
     [(pdf ''in'' ''a.pdf'', ''A''), (pdf ''in'' ''b.pdf'', ''B''),
      (json_blob ''out'' ''dir/0.json'', ''{}'')]"

definition example_archived :: mem where
  "example_archived = [(pdf ''arch'' ''a.pdf'', ''A''), (pdf ''arch'' ''b.pdf'', ''B'')]"

definition example_cleanup_trace :: "event list" where
  "example_cleanup_trace =
     [ListBlobs ''out'' ''dir/'' [json_blob ''out'' ''dir/0.json''],
      ListBlobs ''in'' '''' [pdf ''in'' ''a.pdf'', pdf ''in'' ''b.pdf''],
      Print (Moving ''in'' ''arch'' ''a.pdf''),
      CopyBlob (pdf ''in'' ''a.pdf'') ''arch'' ''a.pdf'' None,
      Print (Moving ''in'' ''arch'' ''b.pdf''),
      CopyBlob (pdf ''in'' ''b.pdf'') ''arch'' ''b.pdf'' None,
      Print (Deleting ''dir/0.json''),
      DeleteBlob (json_blob ''out'' ''dir/0.json'') None,
      Print (Deleting ''a.pdf''),
      DeleteBlob (pdf ''in'' ''a.pdf'') None,
      Print (Deleting ''b.pdf''),
      DeleteBlob (pdf ''in'' ''b.pdf'') None]"

subsection \<open>Notions used in the statements\<close>

text \<open>The blobs of a listing that \<open>create_batches\<close> does not skip.\<close>

definition accepted_blobs :: "constants \<Rightarrow> blob list \<Rightarrow> blob list" where
  "accepted_blobs c blobs =
     filter (\<lambda>b. blob_content_type b \<in> set (ACCEPTED_MIME_TYPES c)) blobs"

text \<open>The submissions and the waits of a trace, in order, with their outcomes.\<close>

fun submissions :: "event list \<Rightarrow> (batch_process_request \<times> (error + string)) list" where
  "submissions [] = []"
| "submissions (BatchProcessDocuments request outcome # tr) = (request, outcome) # submissions tr"
| "submissions (e # tr) = submissions tr"

fun waits :: "event list \<Rightarrow> (string \<times> int \<times> error option) list" where
  "waits [] = []"
| "waits (OperationResult operation_name timeout outcome # tr) =
     (operation_name, timeout, outcome) # waits tr"
| "waits (e # tr) = waits tr"

text \<open>The entry of a wait, with the configured timeout, that returned.\<close>

definition completed :: "constants \<Rightarrow> string \<Rightarrow> string \<times> int \<times> error option" where
  "completed c operation_name = (operation_name, TIMEOUT c, None)"

text \<open>The request \<open>_batch_process_documents\<close> builds for a batch.\<close>

definition request_of :: "constants \<Rightarrow> string \<Rightarrow> gcs_document list \<Rightarrow> batch_process_request" where
  "request_of c gcs_output_uri batch =
     \<lparr>req_name = processor_path (PROJECT_ID c) (LOCATION c) (PROCESSOR_ID c),
      req_input_documents = batch, req_document_output_config = gcs_output_uri\<rparr>"

text \<open>The copies and the deletes of a trace, in order, with their outcomes; and the
  entries of a copy to the archive under the same name, and of a delete, that succeeded.\<close>

fun copies :: "event list \<Rightarrow> (blob \<times> string \<times> string \<times> error option) list" where
  "copies [] = []"
| "copies (CopyBlob b destination_bucket new_name outcome # tr) =
     (b, destination_bucket, new_name, outcome) # copies tr"
| "copies (e # tr) = copies tr"

fun deletes :: "event list \<Rightarrow> (blob \<times> error option) list" where
  "deletes [] = []"
| "deletes (DeleteBlob b outcome # tr) = (b, outcome) # deletes tr"
| "deletes (e # tr) = deletes tr"

definition copied :: "string \<Rightarrow> blob \<Rightarrow> blob \<times> string \<times> string \<times> error option" where
  "copied archive_bucket b = (b, archive_bucket, blob_name b, None)"

definition deleted :: "blob \<Rightarrow> blob \<times> error option" where
  "deleted b = (b, None)"

text \<open>
  Replaying a trace against the environment from a world: every recorded outcome must be
  the answer the environment gives to that call in the world the calls before it left.
  The result is the world after the last call, or \<open>None\<close> when some recorded outcome
  is not the environment's.
\<close>

fun replay :: "'w env \<Rightarrow> 'w \<Rightarrow> event list \<Rightarrow> 'w option" where
  "replay env w [] = Some w"
| "replay env w (ListBlobs bucket prefix blobs # tr) =
     (if list_blobs env w bucket prefix = blobs then replay env w tr else None)"
| "replay env w (DownloadAsText b outcome # tr) =
     (if download_as_text env w b = outcome then replay env w tr else None)"
| "replay env w (CopyBlob b destination_bucket new_name outcome # tr) =
     (if fst (copy_blob env w b destination_bucket new_name) = outcome
      then replay env (snd (copy_blob env w b destination_bucket new_name)) tr else None)"
| "replay env w (DeleteBlob b outcome # tr) =
     (if fst (blob_delete env w b) = outcome
      then replay env (snd (blob_delete env w b)) tr else None)"
| "replay env w (BatchProcessDocuments request outcome # tr) =
     (if fst (client_batch_process_documents env w request) = outcome
      then replay env (snd (client_batch_process_documents env w request)) tr else None)"
| "replay env w (OperationResult operation_name timeout outcome # tr) =
     (if fst (operation_result env w operation_name timeout) = outcome
      then replay env (snd (operation_result env w operation_name timeout)) tr else None)"
| "replay env w (Print line # tr) = replay env w tr"

text \<open>
  A storage whose listings reflect its copies and deletes: a copy that returned adds
  nothing to the listings of the buckets other than its destination, and a delete that
  returned adds nothing to any listing and removes the deleted blob from all of them.
\<close>

definition listings_reflect :: "'w env \<Rightarrow> bool" where
  "listings_reflect env =
     ((\<forall>w b destination_bucket new_name w1 bucket prefix.
         copy_blob env w b destination_bucket new_name = (None, w1) \<longrightarrow>
         bucket \<noteq> destination_bucket \<longrightarrow>
         set (list_blobs env w1 bucket prefix) \<subseteq> set (list_blobs env w bucket prefix))
      \<and> (\<forall>w b w1 bucket prefix.
         blob_delete env w b = (None, w1) \<longrightarrow>
         set (list_blobs env w1 bucket prefix) \<subseteq> set (list_blobs env w bucket prefix) - {b}))"

section \<open>The entity flattener\<close>

lemma slash_to_underscore_eq: "slash_to_underscore s = str_replace (CHR ''/'') (CHR ''_'') s"
  by (induction s) (simp_all add: str_replace_def)

lemma map_of_dict_update: "map_of (dict_update k v d) = (map_of d)(k \<mapsto> v)"
  by (induction d) (auto simp: fun_eq_iff)

lemma flatten_step_truthy_eq: "flatten_step_truthy m e = m(entity_key e \<mapsto> entity_value e)"
  by (cases "normalized_value e")
    (simp_all add: flatten_step_truthy_def entity_key_def entity_value_def slash_to_underscore_eq)

lemma extract_loop_refines:
  "map_of (extract_loop es d) = foldl flatten_step_truthy (map_of d) es"
  by (induction es arbitrary: d) (simp_all add: map_of_dict_update flatten_step_truthy_eq)

lemma flatten_steps_agree:
  "\<forall>e \<in> set es. \<forall>nv. normalized_value e = Some nv \<longrightarrow> truthy nv \<Longrightarrow>
   foldl flatten_step_truthy m es = foldl flatten_step m es"
proof (induction es arbitrary: m)
  case Nil
  then show ?case by simp
next
  case (Cons e es)
  have "flatten_step_truthy m e = flatten_step m e"
    using Cons.prems by (cases "normalized_value e") (simp_all add: flatten_step_truthy_def flatten_step_def)
  with Cons show ?case by simp
qed

text \<open>
  Claim C4, as the code has it. For every document, the dictionary
  \<open>extract_document_entities\<close> builds is, as a mapping, the fold over the entities in
  order: key the type with every slash replaced by an underscore, value the normalized
  text when a normalized value is present and truthy and the mention text otherwise, a
  later entity overwriting an earlier one of the same key. It is the reference fold of
  the claim whenever every normalized value that is present is truthy. A document
  without entities gives the empty dictionary, and the entities \<open>a/b \<mapsto> x\<close>,
  \<open>a_b \<mapsto> y\<close> give the one entry \<open>a_b \<mapsto> y\<close>.
\<close>

theorem extract_document_entities_refines:
  "map_of (extract_document_entities doc) = flattenEntities_truthy doc
   \<and> ((\<forall>e \<in> set (entities doc). \<forall>nv. normalized_value e = Some nv \<longrightarrow> truthy nv) \<longrightarrow>
        map_of (extract_document_entities doc) = flattenEntities_reference doc)
   \<and> extract_document_entities \<lparr>entities = []\<rparr> = []
   \<and> extract_document_entities
        \<lparr>entities = [\<lparr>entity_type = ''a/b'', mention_text = ''x'', normalized_value = None\<rparr>,
                     \<lparr>entity_type = ''a_b'', mention_text = ''y'', normalized_value = None\<rparr>]\<rparr>
       = [(''a_b'', ''y'')]"
proof (intro conjI impI)
  show r: "map_of (extract_document_entities doc) = flattenEntities_truthy doc"
    by (simp add: extract_document_entities_def flattenEntities_truthy_def extract_loop_refines)
  assume "\<forall>e \<in> set (entities doc). \<forall>nv. normalized_value e = Some nv \<longrightarrow> truthy nv"
  from flatten_steps_agree[OF this] r
  show "map_of (extract_document_entities doc) = flattenEntities_reference doc"
    by (simp add: flattenEntities_truthy_def flattenEntities_reference_def)
qed (simp_all add: extract_document_entities_def entity_key_def entity_value_def str_replace_def)

theorem extract_document_entities_refines_witness:
  "list_all (\<lambda>e. case normalized_value e of None \<Rightarrow> True | Some nv \<Rightarrow> truthy nv)
     (entities example_document)
   \<and> extract_document_entities example_document
       = [(''due_date'', ''2020-01-02''), (''total'', ''12'')]
   \<and> flattenEntities_reference example_document
       = map_of [(''due_date'', ''2020-01-02''), (''total'', ''12'')]"
proof -
  have h: "\<forall>e \<in> set (entities example_document).
      \<forall>nv. normalized_value e = Some nv \<longrightarrow> truthy nv"
    by (simp add: example_document_def truthy_def)
  have ev: "extract_document_entities example_document
       = [(''due_date'', ''2020-01-02''), (''total'', ''12'')]"
    by (simp add: example_document_def extract_document_entities_def entity_key_def
        entity_value_def str_replace_def truthy_def)
  from extract_document_entities_refines [of example_document] h
  have eq: "map_of (extract_document_entities example_document)
      = flattenEntities_reference example_document"
    by blast
  have "flattenEntities_reference example_document
       = map_of [(''due_date'', ''2020-01-02''), (''total'', ''12'')]"
    by (simp only: eq[symmetric] ev)
  moreover have "list_all (\<lambda>e. case normalized_value e of None \<Rightarrow> True | Some nv \<Rightarrow> truthy nv)
     (entities example_document)"
    by (simp add: example_document_def truthy_def)
  ultimately show ?thesis using ev by blast
qed

text \<open>
  The claim as stated takes the normalized text whenever a normalized value is present.
  For an entity whose normalized value is present and falsy (empty text, no structured
  value) the reference gives the empty text and the code gives the mention text.
\<close>

theorem extract_document_entities_falsy_counterexample:
  "extract_document_entities
     \<lparr>entities = [\<lparr>entity_type = ''total'', mention_text = ''x'',
                    normalized_value = Some \<lparr>nv_text = '''', nv_structured_value = False\<rparr>\<rparr>]\<rparr>
     = [(''total'', ''x'')]
   \<and> flattenEntities_reference
     \<lparr>entities = [\<lparr>entity_type = ''total'', mention_text = ''x'',
                    normalized_value = Some \<lparr>nv_text = '''', nv_structured_value = False\<rparr>\<rparr>]\<rparr>
     ''total'' = Some ''''
   \<and> map_of (extract_document_entities
     \<lparr>entities = [\<lparr>entity_type = ''total'', mention_text = ''x'',
                    normalized_value = Some \<lparr>nv_text = '''', nv_structured_value = False\<rparr>\<rparr>]\<rparr>)
     ''total'' = Some ''x''"
  by (simp add: extract_document_entities_def flattenEntities_reference_def flatten_step_def
      entity_key_def entity_value_def str_replace_def truthy_def)

section \<open>The batch partitioner\<close>

lemma neg_div_ceiling: 
  assumes B: "1 \<le> (B::int)"
  shows "- (- m div B) = (m - 1) div B + 1"
proof -
  define q where "q = (m - 1) div B"
  define r where "r = (m - 1) mod B"
  have r: "0 \<le> r" "r < B" using B by (simp_all add: r_def)
  have m: "m - 1 = q * B + r" by (simp add: q_def r_def)
  have "- m = (B - 1 - r) + (- (q + 1)) * B" using m by (simp add: algebra_simps)
  then have "- m div B = ((B - 1 - r) + (- (q + 1)) * B) div B" by simp
  also have "\<dots> = - (q + 1) + (B - 1 - r) div B" using B by (subst div_mult_self1) simp_all
  also have "(B - 1 - r) div B = 0" using r by simp
  finally show ?thesis by (simp add: q_def)
qed

lemma ceiling_as_div: "1 \<le> (B::int) \<Longrightarrow> \<lceil>real m / real_of_int B\<rceil> = (int m - 1) div B + 1"
proof -
  assume B: "1 \<le> B"
  have "\<lceil>real m / real_of_int B\<rceil> = \<lceil>of_int (int m) / (of_int B :: real)\<rceil>" by simp
  also have "\<dots> = - (- int m div B)" by (rule ceiling_divide_eq_div)
  also have "\<dots> = (int m - 1) div B + 1" using B by (rule neg_div_ceiling)
  finally show ?thesis .
qed

lemma loop_concat:
  "create_batches_loop c ib B blobs batches batch tr = (bs', b', tr') \<Longrightarrow>
   concat bs' @ b' = concat batches @ batch @ map (gcs_document_of ib) (accepted_blobs c blobs)"
  by (induction blobs arbitrary: batches batch tr) (auto simp: accepted_blobs_def split: if_splits)

lemma loop_closed:
  "create_batches_loop c ib B blobs batches batch tr = (bs', b', tr') \<Longrightarrow>
   \<exists>new. bs' = batches @ new \<and> (\<forall>x \<in> set new. int (length x) = B)"
proof (induction blobs arbitrary: batches batch tr)
  case Nil
  then show ?case by simp
next
  case (Cons b rest)
  show ?case
  proof (cases "blob_content_type b \<in> set (ACCEPTED_MIME_TYPES c)")
    case False
    with Cons.prems Cons.IH[of batches batch] show ?thesis by simp
  next
    case acc: True
    show ?thesis
    proof (cases "int (length batch) = B")
      case True
      with acc Cons.prems have
        "create_batches_loop c ib B rest (batches @ [batch]) [gcs_document_of ib b] tr = (bs', b', tr')"
        by simp
      from Cons.IH[OF this] True show ?thesis by auto
    next
      case False
      with acc Cons.prems have
        "create_batches_loop c ib B rest batches (batch @ [gcs_document_of ib b]) tr = (bs', b', tr')"
        by simp
      from Cons.IH[OF this] show ?thesis .
    qed
  qed
qed

lemma small_div_mod: "1 \<le> (n::int) \<Longrightarrow> n \<le> B \<Longrightarrow> (n - 1) div B = 0 \<and> (n - 1) mod B + 1 = n"
  by simp

lemma add_self_div_mod: "1 \<le> (B::int) \<Longrightarrow> (B + m) div B = 1 + m div B \<and> (B + m) mod B = m mod B"
  by simp

lemma loop_count:
  "create_batches_loop c ib B blobs batches batch tr = (bs', b', tr') \<Longrightarrow>
   1 \<le> B \<Longrightarrow> 1 \<le> length batch + length (accepted_blobs c blobs) \<Longrightarrow> int (length batch) \<le> B \<Longrightarrow>
   int (length bs') = int (length batches) + (int (length batch) + int (length (accepted_blobs c blobs)) - 1) div B
   \<and> int (length b') = (int (length batch) + int (length (accepted_blobs c blobs)) - 1) mod B + 1"
proof (induction blobs arbitrary: batches batch tr)
  case Nil
  from Nil.prems(3,4) have "(int (length batch) - 1) div B = 0 \<and> (int (length batch) - 1) mod B + 1 = int (length batch)"
    by (intro small_div_mod) (simp_all add: accepted_blobs_def)
  with Nil.prems(1) show ?case by (simp add: accepted_blobs_def)
next
  case (Cons b rest)
  show ?case
  proof (cases "blob_content_type b \<in> set (ACCEPTED_MIME_TYPES c)")
    case False
    with Cons.prems Cons.IH[of batches batch] show ?thesis by (simp add: accepted_blobs_def)
  next
    case acc: True
    then have len: "int (length (accepted_blobs c (b # rest))) = 1 + int (length (accepted_blobs c rest))"
      by (simp add: accepted_blobs_def)
    show ?thesis
    proof (cases "int (length batch) = B")
      case True
      with acc Cons.prems have
        "create_batches_loop c ib B rest (batches @ [batch]) [gcs_document_of ib b] tr = (bs', b', tr')"
        by simp
      from Cons.IH[OF this] Cons.prems(2) 
      have ih: "int (length bs') = int (length batches) + 1 + int (length (accepted_blobs c rest)) div B"
            "int (length b') = int (length (accepted_blobs c rest)) mod B + 1" by simp_all
      have "int (length batch) + int (length (accepted_blobs c (b # rest))) - 1 = B + int (length (accepted_blobs c rest))"
        using True len by simp
      with ih add_self_div_mod[OF Cons.prems(2), of "int (length (accepted_blobs c rest))"] show ?thesis by simp
    next
      case False
      with acc Cons.prems have
        "create_batches_loop c ib B rest batches (batch @ [gcs_document_of ib b]) tr = (bs', b', tr')"
        by simp
      from Cons.IH[OF this] Cons.prems(2,3,4) False len show ?thesis by (simp add: algebra_simps)
    qed
  qed
qed

lemma loop_empty:
  "accepted_blobs c blobs = [] \<Longrightarrow>
   \<exists>tr'. create_batches_loop c ib B blobs batches batch tr = (batches, batch, tr')"
  by (induction blobs arbitrary: tr) (auto simp: accepted_blobs_def split: if_splits)

lemma loop_trace:
  "create_batches_loop c ib B blobs batches batch tr = (bs', b', tr') \<Longrightarrow>
   tr' = tr @ map (\<lambda>b. Print (InvalidMimeType (blob_content_type b) (blob_name b)))
               (filter (\<lambda>b. blob_content_type b \<notin> set (ACCEPTED_MIME_TYPES c)) blobs)"
proof (induction blobs arbitrary: batches batch tr)
  case Nil
  then show ?case by simp
next
  case (Cons b rest)
  then show ?case by (simp split: if_splits) fastforce
qed

text \<open>What \<open>create_batches\<close> returns when the size check passes.\<close>

lemma create_batches_Inr:
  assumes "B \<le> BATCH_MAX_FILES c"
  obtains bs' b' tr' where
    "create_batches_loop c ib B (list_blobs env (fst s) ib ip) [] []
       (snd s @ [ListBlobs ib ip (list_blobs env (fst s) ib ip)]) = (bs', b', tr')"
    "create_batches c env ib ip B s = (Inr (bs' @ [b']), (fst s, tr'))"
proof -
  obtain bs' b' tr' where l: "create_batches_loop c ib B (list_blobs env (fst s) ib ip) [] []
       (snd s @ [ListBlobs ib ip (list_blobs env (fst s) ib ip)]) = (bs', b', tr')"
    by (metis prod_cases3)
  with assms have "create_batches c env ib ip B s = (Inr (bs' @ [b']), (fst s, tr'))"
    by (simp add: create_batches_def Let_def)
  with l that show thesis by blast
qed

lemmas example_defs = example_inputs_def example_consts_def pdf_def json_blob_def
  mem_env_def mem_list_blobs_def str_startswith_def gcs_document_of_def accepted_blobs_def

text \<open>
  Claim C1, as the code has it. For a batch size \<open>B\<close> with \<open>1 \<le> B \<le> BATCH_MAX_FILES\<close>
  and a listing with \<open>N\<close> accepted objects, \<open>create_batches\<close> returns
  \<open>max 1 \<lceil>N / B\<rceil>\<close> batches whose concatenation is the accepted objects in
  listing order, each exactly once: the single empty batch when \<open>N = 0\<close>, and
  \<open>\<lceil>N / B\<rceil>\<close> batches, none of them empty, when \<open>N > 0\<close>.
\<close>

theorem create_batches_partition:
  assumes B: "1 \<le> B" "B \<le> BATCH_MAX_FILES c"
  shows "\<exists>batches. fst (create_batches c env ib ip B s) = Inr batches
     \<and> concat batches = map (gcs_document_of ib) (accepted_blobs c (list_blobs env (fst s) ib ip))
     \<and> int (length batches) = max 1 \<lceil>real (length (accepted_blobs c (list_blobs env (fst s) ib ip))) / real_of_int B\<rceil>
     \<and> (accepted_blobs c (list_blobs env (fst s) ib ip) = [] \<longrightarrow> batches = [[]])
     \<and> (accepted_blobs c (list_blobs env (fst s) ib ip) \<noteq> [] \<longrightarrow> [] \<notin> set batches)"
proof -
  let ?blobs = "list_blobs env (fst s) ib ip"
  let ?acc = "accepted_blobs c ?blobs"
  from B(2) obtain bs' b' tr' where
    l: "create_batches_loop c ib B ?blobs [] [] (snd s @ [ListBlobs ib ip ?blobs]) = (bs', b', tr')"
    and r: "create_batches c env ib ip B s = (Inr (bs' @ [b']), (fst s, tr'))"
    by (rule create_batches_Inr)
  have cc: "concat (bs' @ [b']) = map (gcs_document_of ib) ?acc"
    using loop_concat[OF l] by simp
  have empty: "bs' @ [b'] = [[]]" if "?acc = []"
    using loop_empty[OF that, of ib B "[]" "[]" "snd s @ [ListBlobs ib ip ?blobs]"] l by auto
  have nonempty: "int (length (bs' @ [b'])) = \<lceil>real (length ?acc) / real_of_int B\<rceil> \<and> 1 \<le> length ?acc \<and> [] \<notin> set (bs' @ [b'])"
    if ne: "?acc \<noteq> []"
  proof -
    from ne have pos: "1 \<le> length ([]::gcs_document list) + length ?acc"
      by (cases ?acc) simp_all
    from loop_count[OF l B(1) pos] B(1)
    have cnt: "int (length bs') = (int (length ?acc) - 1) div B"
      and last: "int (length b') = (int (length ?acc) - 1) mod B + 1" by simp_all
    from last B(1) have "1 \<le> int (length b')" by simp
    then have b': "b' \<noteq> []" by auto
    from loop_closed[OF l] B(1) have "\<forall>x \<in> set bs'. x \<noteq> []" by auto
    with b' cnt pos show ?thesis by (auto simp: ceiling_as_div[OF B(1)])
  qed
  have count: "int (length (bs' @ [b'])) = max 1 \<lceil>real (length ?acc) / real_of_int B\<rceil>"
  proof (cases "?acc = []")
    case True
    with empty show ?thesis by simp
  next
    case False
    from nonempty[OF False] B(1) False have "1 \<le> \<lceil>real (length ?acc) / real_of_int B\<rceil>"
      by (simp add: ceiling_as_div[OF B(1)] pos_imp_zdiv_nonneg_iff)
    with nonempty[OF False] show ?thesis by simp
  qed
  have res: "fst (create_batches c env ib ip B s) = Inr (bs' @ [b'])"
    using r by simp
  from res cc count empty nonempty show ?thesis by blast
qed

theorem create_batches_partition_witness:
  "(1::int) \<le> 2 \<and> 2 \<le> BATCH_MAX_FILES example_consts
   \<and> fst (create_batches example_consts mem_env ''in'' '''' 2 (example_inputs, []))
       = Inr [[gcs_document_of ''in'' (pdf ''in'' ''a.pdf''), gcs_document_of ''in'' (pdf ''in'' ''b.pdf'')],
              [gcs_document_of ''in'' (pdf ''in'' ''c.pdf'')]]
   \<and> accepted_blobs example_consts (list_blobs mem_env example_inputs ''in'' '''')
       = [pdf ''in'' ''a.pdf'', pdf ''in'' ''b.pdf'', pdf ''in'' ''c.pdf'']
   \<and> \<lceil>real 3 / real_of_int 2\<rceil> = 2"
  using create_batches_partition [of 2 example_consts mem_env "''in''" "''''" "(example_inputs, [])"]
  by (simp add: example_defs create_batches_def)

text \<open>
  The count of the claim as stated, \<open>\<lceil>N / B\<rceil>\<close> batches plus a trailing empty
  one, fails for one accepted object and batch size one: the result is the one batch.
\<close>

theorem create_batches_trailing_counterexample:
  "fst (create_batches example_consts mem_env ''in'' '''' 1 ([(pdf ''in'' ''a.pdf'', ''A'')], []))
     = Inr [[gcs_document_of ''in'' (pdf ''in'' ''a.pdf'')]]
   \<and> int (length [[gcs_document_of ''in'' (pdf ''in'' ''a.pdf'')]]) \<noteq> \<lceil>real 1 / real_of_int 1\<rceil> + 1"
  by (simp add: example_defs create_batches_def)

text \<open>
  Claim C2. A batch size above \<open>BATCH_MAX_FILES\<close> makes \<open>create_batches\<close> raise
  \<open>ValueError\<close> with the world and the trace untouched: no listing, no other call.
  A batch size up to and including \<open>BATCH_MAX_FILES\<close> raises nothing: the storage is
  listed and batches are returned, and the size is used as given, every batch that was
  closed having exactly \<open>batch_size\<close> elements.
\<close>

theorem create_batches_size_check:
  "(BATCH_MAX_FILES c < B \<longrightarrow>
      create_batches c env ib ip B s = (Inl (ValueError (BATCH_MAX_FILES c) B), s))
   \<and> (B \<le> BATCH_MAX_FILES c \<longrightarrow>
      (\<exists>batches tr. create_batches c env ib ip B s
           = (Inr batches, (fst s, snd s @ ListBlobs ib ip (list_blobs env (fst s) ib ip) # tr))
         \<and> (\<forall>x \<in> set (butlast batches). int (length x) = B)))"
proof (intro conjI impI)
  assume "BATCH_MAX_FILES c < B"
  then show "create_batches c env ib ip B s = (Inl (ValueError (BATCH_MAX_FILES c) B), s)"
    by (simp add: create_batches_def)
next
  let ?blobs = "list_blobs env (fst s) ib ip"
  assume "B \<le> BATCH_MAX_FILES c"
  then obtain bs' b' tr' where
    l: "create_batches_loop c ib B ?blobs [] [] (snd s @ [ListBlobs ib ip ?blobs]) = (bs', b', tr')"
    and r: "create_batches c env ib ip B s = (Inr (bs' @ [b']), (fst s, tr'))"
    by (rule create_batches_Inr)
  from loop_trace[OF l] obtain tr where tr: "tr' = snd s @ ListBlobs ib ip ?blobs # tr"
    by simp
  have "\<forall>x \<in> set (butlast (bs' @ [b'])). int (length x) = B"
    using loop_closed[OF l] by simp
  with r tr show "\<exists>batches tr. create_batches c env ib ip B s
           = (Inr batches, (fst s, snd s @ ListBlobs ib ip ?blobs # tr))
         \<and> (\<forall>x \<in> set (butlast batches). int (length x) = B)"
    by blast
qed

theorem create_batches_size_check_witness:
  "BATCH_MAX_FILES example_consts < 3
   \<and> create_batches example_consts mem_env ''in'' '''' 3 (example_inputs, [])
       = (Inl (ValueError 2 3), (example_inputs, []))
   \<and> 2 \<le> BATCH_MAX_FILES example_consts
   \<and> fst (create_batches example_consts mem_env ''in'' '''' 2 (example_inputs, []))
       = Inr [[gcs_document_of ''in'' (pdf ''in'' ''a.pdf''), gcs_document_of ''in'' (pdf ''in'' ''b.pdf'')],
              [gcs_document_of ''in'' (pdf ''in'' ''c.pdf'')]]"
  using create_batches_size_check [of example_consts 3 mem_env "''in''" "''''" "(example_inputs, [])"]
    create_batches_size_check [of example_consts 2 mem_env "''in''" "''''" "(example_inputs, [])"]
  by (simp add: example_defs create_batches_def)

text \<open>
  Claim C8, as the code has it. When the size check passes, no batch contains an object
  whose content type is not accepted, the batch sizes add up to the number of accepted
  objects (a skipped object counts toward no batch), and every batch but the last has
  exactly \<open>batch_size\<close> elements; when moreover \<open>1 \<le> batch_size\<close>, every
  batch has at most \<open>batch_size\<close> elements.
\<close>

theorem create_batches_bounded:
  assumes B: "B \<le> BATCH_MAX_FILES c"
  shows "\<exists>batches. fst (create_batches c env ib ip B s) = Inr batches
     \<and> (\<forall>d \<in> set (concat batches). \<exists>b \<in> set (list_blobs env (fst s) ib ip).
            d = gcs_document_of ib b \<and> blob_content_type b \<in> set (ACCEPTED_MIME_TYPES c))
     \<and> length (concat batches) = length (accepted_blobs c (list_blobs env (fst s) ib ip))
     \<and> (\<forall>x \<in> set (butlast batches). int (length x) = B)
     \<and> (1 \<le> B \<longrightarrow> (\<forall>x \<in> set batches. int (length x) \<le> B))"
proof -
  let ?blobs = "list_blobs env (fst s) ib ip"
  let ?acc = "accepted_blobs c ?blobs"
  from B obtain bs' b' tr' where
    l: "create_batches_loop c ib B ?blobs [] [] (snd s @ [ListBlobs ib ip ?blobs]) = (bs', b', tr')"
    and r: "create_batches c env ib ip B s = (Inr (bs' @ [b']), (fst s, tr'))"
    by (rule create_batches_Inr)
  have res: "fst (create_batches c env ib ip B s) = Inr (bs' @ [b'])"
    using r by simp
  have cc: "concat (bs' @ [b']) = map (gcs_document_of ib) ?acc"
    using loop_concat[OF l] by simp
  have only: "\<forall>d \<in> set (concat (bs' @ [b'])). \<exists>b \<in> set ?blobs.
            d = gcs_document_of ib b \<and> blob_content_type b \<in> set (ACCEPTED_MIME_TYPES c)"
    unfolding cc by (auto simp: accepted_blobs_def)
  have len: "length (concat (bs' @ [b'])) = length ?acc"
    unfolding cc by simp
  have closed: "\<forall>x \<in> set (butlast (bs' @ [b'])). int (length x) = B"
    using loop_closed[OF l] by simp
  have bounded: "\<forall>x \<in> set (bs' @ [b']). int (length x) \<le> B" if B1: "1 \<le> B"
  proof (cases "?acc = []")
    case True
    from loop_empty[OF True, of ib B "[]" "[]" "snd s @ [ListBlobs ib ip ?blobs]"] l B1
    show ?thesis by auto
  next
    case False
    then have pos: "1 \<le> length ([]::gcs_document list) + length ?acc"
      by (cases ?acc) simp_all
    from loop_count[OF l B1 pos] B1
    have "int (length b') = (int (length ?acc) - 1) mod B + 1" by simp
    moreover have "(int (length ?acc) - 1) mod B < B" using B1 by simp
    ultimately have "int (length b') \<le> B" by linarith
    with closed show ?thesis by auto
  qed
  from res only len closed bounded show ?thesis by blast
qed

theorem create_batches_bounded_witness:
  "2 \<le> BATCH_MAX_FILES example_consts \<and> (1::int) \<le> 2
   \<and> fst (create_batches example_consts mem_env ''in'' '''' 2 (example_inputs, []))
       = Inr [[gcs_document_of ''in'' (pdf ''in'' ''a.pdf''), gcs_document_of ''in'' (pdf ''in'' ''b.pdf'')],
              [gcs_document_of ''in'' (pdf ''in'' ''c.pdf'')]]"
  using create_batches_bounded [of 2 example_consts mem_env "''in''" "''''" "(example_inputs, [])"]
  by (simp add: example_defs create_batches_def)

text \<open>
  Without \<open>1 \<le> batch_size\<close> the bound fails: size zero passes the check, and the
  last batch then holds every accepted object, here three with a ceiling of two.
\<close>

theorem create_batches_zero_size_counterexample:
  "0 \<le> BATCH_MAX_FILES example_consts
   \<and> fst (create_batches example_consts mem_env ''in'' '''' 0 (example_inputs, []))
       = Inr [[], [gcs_document_of ''in'' (pdf ''in'' ''a.pdf''), gcs_document_of ''in'' (pdf ''in'' ''b.pdf''),
                   gcs_document_of ''in'' (pdf ''in'' ''c.pdf'')]]
   \<and> \<not> int (length [gcs_document_of ''in'' (pdf ''in'' ''a.pdf''), gcs_document_of ''in'' (pdf ''in'' ''b.pdf''),
                   gcs_document_of ''in'' (pdf ''in'' ''c.pdf'')]) \<le> BATCH_MAX_FILES example_consts"
  by (simp add: example_defs create_batches_def)

section \<open>The batch submitter\<close>

lemma submissions_append: "submissions (xs @ ys) = submissions xs @ submissions ys"
  by (induction xs rule: submissions.induct) simp_all

lemma waits_append: "waits (xs @ ys) = waits xs @ waits ys"
  by (induction xs rule: waits.induct) simp_all

lemma replay_append:
  "replay env w (xs @ ys) = (case replay env w xs of None \<Rightarrow> None | Some w1 \<Rightarrow> replay env w1 ys)"
  by (induction env w xs rule: replay.induct) simp_all

text \<open>The run of the submission loop: what it submitted, what the service answered, and
  how it ended.\<close>

lemma batch_process_loop_trace:
  "batch_process_loop c env rn out i batches ids s = (r, s') \<Longrightarrow>
   \<exists>k ext names. k \<le> length batches \<and> snd s' = snd s @ ext
     \<and> replay env (fst s) ext = Some (fst s')
     \<and> map fst (submissions ext)
         = map (\<lambda>b. \<lparr>req_name = rn, req_input_documents = b, req_document_output_config = out\<rparr>)
             (take k batches)
     \<and> ((r = Inr (ids @ names) \<and> k = length batches
          \<and> map snd (submissions ext) = map Inr names
          \<and> waits ext = map (completed c) names)
        \<or> (\<exists>e. r = Inl e \<and> 1 \<le> k \<and> ext \<noteq> []
              \<and> map snd (submissions ext) = map Inr names @ [Inl e]
              \<and> waits ext = map (completed c) names
              \<and> last ext = BatchProcessDocuments
                   \<lparr>req_name = rn, req_input_documents = batches ! (k - 1),
                    req_document_output_config = out\<rparr> (Inl e))
        \<or> (\<exists>e n. r = Inl e \<and> 1 \<le> k \<and> ext \<noteq> []
              \<and> map snd (submissions ext) = map Inr names @ [Inr n]
              \<and> waits ext = map (completed c) names @ [(n, TIMEOUT c, Some e)]
              \<and> last ext = OperationResult n (TIMEOUT c) (Some e)))"
proof (induction batches arbitrary: i ids s)
  case Nil
  then show ?case
    by (intro exI[of _ 0] exI[of _ "[]"]) auto
next
  case (Cons batch rest)
  let ?mk = "\<lambda>b. \<lparr>req_name = rn, req_input_documents = b, req_document_output_config = out\<rparr>"
  let ?req = "?mk batch"
  let ?p = "Print (ProcessingBatch i (length batch))"
  obtain o1 w1 where sub: "client_batch_process_documents env (fst s) ?req = (o1, w1)"
    by (cases "client_batch_process_documents env (fst s) ?req")
  show ?case
  proof (cases o1)
    case (Inl e)
    with Cons.prems sub have r: "r = Inl e"
      and s': "s' = (w1, snd s @ [?p, BatchProcessDocuments ?req (Inl e)])"
      by (auto simp: Let_def)
    show ?thesis
      apply (rule exI[of _ 1])
      apply (rule exI[of _ "[?p, BatchProcessDocuments ?req (Inl e)]"])
      apply (rule exI[of _ "[]"])
      using r s' sub Inl by simp
  next
    case (Inr n)
    obtain o2 w2 where wt: "operation_result env w1 n (TIMEOUT c) = (o2, w2)"
      by (cases "operation_result env w1 n (TIMEOUT c)")
    show ?thesis
    proof (cases o2)
      case (Some e)
      let ?ext = "[?p, BatchProcessDocuments ?req (Inr n), Print (WaitingForOperation n),
                   OperationResult n (TIMEOUT c) (Some e)]"
      from Cons.prems sub Inr wt Some have r: "r = Inl e" and s': "s' = (w2, snd s @ ?ext)"
        by (auto simp: Let_def)
      show ?thesis
        apply (rule exI[of _ 1])
        apply (rule exI[of _ ?ext])
        apply (rule exI[of _ "[]"])
        using r s' sub Inr wt Some by simp
    next
      case None
      let ?pre = "[?p, BatchProcessDocuments ?req (Inr n), Print (WaitingForOperation n),
                   OperationResult n (TIMEOUT c) None]"
      let ?s2 = "(w2, snd s @ ?pre)"
      from Cons.prems sub Inr wt None
      have rec: "batch_process_loop c env rn out (Suc i) rest (ids @ [n]) ?s2 = (r, s')"
        by (simp add: Let_def)
      have rp: "replay env (fst s) ?pre = Some w2"
        using sub Inr wt None by simp
      from Cons.IH[OF rec] obtain k ext names where
        k: "k \<le> length rest" and ext: "snd s' = snd ?s2 @ ext"
        and rpe: "replay env w2 ext = Some (fst s')"
        and subs: "map fst (submissions ext) = map ?mk (take k rest)"
        and c: "(r = Inr ((ids @ [n]) @ names) \<and> k = length rest
          \<and> map snd (submissions ext) = map Inr names
          \<and> waits ext = map (completed c) names)
        \<or> (\<exists>e. r = Inl e \<and> 1 \<le> k \<and> ext \<noteq> []
              \<and> map snd (submissions ext) = map Inr names @ [Inl e]
              \<and> waits ext = map (completed c) names
              \<and> last ext = BatchProcessDocuments (?mk (rest ! (k - 1))) (Inl e))
        \<or> (\<exists>e n. r = Inl e \<and> 1 \<le> k \<and> ext \<noteq> []
              \<and> map snd (submissions ext) = map Inr names @ [Inr n]
              \<and> waits ext = map (completed c) names @ [(n, TIMEOUT c, Some e)]
              \<and> last ext = OperationResult n (TIMEOUT c) (Some e))"
        by auto
      have e1: "snd s' = snd s @ (?pre @ ext)" using ext by simp
      have e2: "replay env (fst s) (?pre @ ext) = Some (fst s')"
        using rp rpe by (simp only: replay_append option.case)
      have e3: "map fst (submissions (?pre @ ext)) = map ?mk (take (Suc k) (batch # rest))"
        using subs by (simp add: submissions_append)
      have nth: "(batch # rest) ! (Suc k - 1) = rest ! (k - 1)" if "1 \<le> k"
        using that by (cases k) simp_all
      have e4: "(r = Inr (ids @ (n # names)) \<and> Suc k = length (batch # rest)
          \<and> map snd (submissions (?pre @ ext)) = map Inr (n # names)
          \<and> waits (?pre @ ext) = map (completed c) (n # names))
        \<or> (\<exists>e. r = Inl e \<and> 1 \<le> Suc k \<and> ?pre @ ext \<noteq> []
              \<and> map snd (submissions (?pre @ ext)) = map Inr (n # names) @ [Inl e]
              \<and> waits (?pre @ ext) = map (completed c) (n # names)
              \<and> last (?pre @ ext) = BatchProcessDocuments (?mk ((batch # rest) ! (Suc k - 1))) (Inl e))
        \<or> (\<exists>e m. r = Inl e \<and> 1 \<le> Suc k \<and> ?pre @ ext \<noteq> []
              \<and> map snd (submissions (?pre @ ext)) = map Inr (n # names) @ [Inr m]
              \<and> waits (?pre @ ext) = map (completed c) (n # names) @ [(m, TIMEOUT c, Some e)]
              \<and> last (?pre @ ext) = OperationResult m (TIMEOUT c) (Some e))"
        using c nth by (auto simp: submissions_append waits_append completed_def)
      from k have k': "Suc k \<le> length (batch # rest)" by simp
      show ?thesis
        apply (rule exI[of _ "Suc k"])
        apply (rule exI[of _ "?pre @ ext"])
        apply (rule exI[of _ "n # names"])
        using k' e1 e2 e3 e4 by blast
    qed
  qed
qed

lemma submissions_prints: "submissions (map (\<lambda>b. Print (f b)) xs) = []"
  by (induction xs) simp_all

lemma refused_first_submission:
  assumes loop: "batch_process_loop c env rn out i (b # rest) ids s = (r, s')"
      and sub: "client_batch_process_documents env (fst s)
                  \<lparr>req_name = rn, req_input_documents = b, req_document_output_config = out\<rparr>
                = (Inl e, w1)"
  shows "r = Inl e \<and> fst s' = w1
     \<and> snd s' = snd s @ [Print (ProcessingBatch i (length b)),
          BatchProcessDocuments
            \<lparr>req_name = rn, req_input_documents = b, req_document_output_config = out\<rparr> (Inl e)]"
  using loop sub by (auto simp: Let_def)

text \<open>
  Claim C7. \<open>_batch_process_documents\<close> submits the batches \<open>create_batches\<close>
  returned one job each, in batch order, and stops at the first failure: the requests it
  submitted are those of the first \<open>k\<close> batches, and the trace replays against the
  environment, so every recorded answer is the service's own. Either it returns: then
  \<open>k\<close> is the number of batches, every submission and every wait (with the
  configured timeout) succeeded, and the result is the operation names in submission
  order. Or a submission raised \<open>e\<close>, or the wait on an operation raised \<open>e\<close>:
  then the result is \<open>e\<close>, that call is the last of the trace and the calls before it
  succeeded, so no remaining batch is submitted. Every exception the service answered
  is the result of the run; in particular a refused first submission ends the run with
  that one submission.
\<close>

theorem batch_process_documents_submits:
  assumes cb: "create_batches c env ib ip B s = (Inr batches, s1)"
      and run: "batch_process_documents c env uri ib ip B s = (r, s')"
  shows "\<exists>k ext names. k \<le> length batches \<and> snd s' = snd s1 @ ext
      \<and> replay env (fst s1) ext = Some (fst s')
      \<and> map fst (submissions ext) = map (request_of c uri) (take k batches)
      \<and> ((r = Inr names \<and> k = length batches
           \<and> map snd (submissions ext) = map Inr names
           \<and> waits ext = map (completed c) names)
         \<or> (\<exists>e. r = Inl e \<and> 1 \<le> k \<and> ext \<noteq> []
               \<and> map snd (submissions ext) = map Inr names @ [Inl e]
               \<and> waits ext = map (completed c) names
               \<and> last ext = BatchProcessDocuments (request_of c uri (batches ! (k - 1))) (Inl e))
         \<or> (\<exists>e n. r = Inl e \<and> 1 \<le> k \<and> ext \<noteq> []
               \<and> map snd (submissions ext) = map Inr names @ [Inr n]
               \<and> waits ext = map (completed c) names @ [(n, TIMEOUT c, Some e)]
               \<and> last ext = OperationResult n (TIMEOUT c) (Some e)))
      \<and> (\<forall>x \<in> set (submissions ext). \<forall>e. snd x = Inl e \<longrightarrow> r = Inl e)
      \<and> (\<forall>x \<in> set (waits ext). \<forall>e. snd (snd x) = Some e \<longrightarrow> r = Inl e)
      \<and> (\<forall>b rest e w1. batches = b # rest
            \<and> client_batch_process_documents env (fst s1) (request_of c uri b) = (Inl e, w1)
            \<longrightarrow> r = Inl e \<and> fst s' = w1 \<and> submissions ext = [(request_of c uri b, Inl e)])"
proof -
  let ?rn = "processor_path (PROJECT_ID c) (LOCATION c) (PROCESSOR_ID c)"
  from cb run have loop: "batch_process_loop c env ?rn uri 0 batches [] s1 = (r, s')"
    by (simp add: batch_process_documents_def)
  from batch_process_loop_trace[OF loop] obtain k ext names where
    k: "k \<le> length batches" and ext: "snd s' = snd s1 @ ext"
    and rp: "replay env (fst s1) ext = Some (fst s')"
    and subs: "map fst (submissions ext) = map (request_of c uri) (take k batches)"
    and c: "(r = Inr names \<and> k = length batches
           \<and> map snd (submissions ext) = map Inr names
           \<and> waits ext = map (completed c) names)
         \<or> (\<exists>e. r = Inl e \<and> 1 \<le> k \<and> ext \<noteq> []
               \<and> map snd (submissions ext) = map Inr names @ [Inl e]
               \<and> waits ext = map (completed c) names
               \<and> last ext = BatchProcessDocuments (request_of c uri (batches ! (k - 1))) (Inl e))
         \<or> (\<exists>e n. r = Inl e \<and> 1 \<le> k \<and> ext \<noteq> []
               \<and> map snd (submissions ext) = map Inr names @ [Inr n]
               \<and> waits ext = map (completed c) names @ [(n, TIMEOUT c, Some e)]
               \<and> last ext = OperationResult n (TIMEOUT c) (Some e))"
    unfolding request_of_def by auto
  have p1: "\<forall>x \<in> set (submissions ext). \<forall>e. snd x = Inl e \<longrightarrow> r = Inl e"
  proof (intro ballI allI impI)
    fix x e assume "x \<in> set (submissions ext)" "snd x = Inl e"
    then have m: "Inl e \<in> set (map snd (submissions ext))" by force
    from c consider "map snd (submissions ext) = map Inr names"
      | e' where "r = Inl e'" "map snd (submissions ext) = map Inr names @ [Inl e']"
      | n where "map snd (submissions ext) = map Inr names @ [Inr n]"
      by blast
    then show "r = Inl e"
    proof cases
      case 1
      with m have "Inl e \<in> set (map Inr names)" by (simp only:)
      then show ?thesis by auto
    next
      case 2
      with m have "Inl e \<in> set (map Inr names @ [Inl e'])" by (simp only:)
      with 2 show ?thesis by auto
    next
      case 3
      with m have "Inl e \<in> set (map Inr names @ [Inr n])" by (simp only:)
      then show ?thesis by auto
    qed
  qed
  have p2: "\<forall>x \<in> set (waits ext). \<forall>e. snd (snd x) = Some e \<longrightarrow> r = Inl e"
  proof (intro ballI allI impI)
    fix x e assume x: "x \<in> set (waits ext)" "snd (snd x) = Some e"
    from c consider "waits ext = map (completed c) names"
      | e' n where "r = Inl e'" "waits ext = map (completed c) names @ [(n, TIMEOUT c, Some e')]"
      by blast
    then show "r = Inl e"
    proof cases
      case 1
      with x show ?thesis by (auto simp: completed_def)
    next
      case 2
      with x show ?thesis by (auto simp: completed_def)
    qed
  qed
  have p3: "\<forall>b rest e w1. batches = b # rest
            \<and> client_batch_process_documents env (fst s1) (request_of c uri b) = (Inl e, w1)
            \<longrightarrow> r = Inl e \<and> fst s' = w1 \<and> submissions ext = [(request_of c uri b, Inl e)]"
  proof (intro allI impI)
    fix b rest e w1
    assume a: "batches = b # rest
            \<and> client_batch_process_documents env (fst s1) (request_of c uri b) = (Inl e, w1)"
    with loop have l: "batch_process_loop c env ?rn uri 0 (b # rest) [] s1 = (r, s')"
      and sub: "client_batch_process_documents env (fst s1)
                  \<lparr>req_name = ?rn, req_input_documents = b, req_document_output_config = uri\<rparr>
                = (Inl e, w1)"
      by (simp_all add: request_of_def)
    from refused_first_submission[OF l sub] ext
    have "r = Inl e" "fst s' = w1"
      "ext = [Print (ProcessingBatch 0 (length b)), BatchProcessDocuments (request_of c uri b) (Inl e)]"
      by (simp_all add: request_of_def)
    then show "r = Inl e \<and> fst s' = w1 \<and> submissions ext = [(request_of c uri b, Inl e)]"
      by simp
  qed
  from k ext rp subs c p1 p2 p3 show ?thesis by blast
qed

lemmas submit_defs = batch_process_documents_def request_of_def example_defs timeout_env_def
  refusing_env_def mem_batch_process_documents_def mem_operation_result_def Let_def

theorem batch_process_documents_submits_witness:
  "create_batches example_consts refusing_env ''in'' '''' 2 (example_inputs, [])
     = (Inr [[gcs_document_of ''in'' (pdf ''in'' ''a.pdf''), gcs_document_of ''in'' (pdf ''in'' ''b.pdf'')],
             [gcs_document_of ''in'' (pdf ''in'' ''c.pdf'')]],
        (example_inputs,
         [ListBlobs ''in'' '''' (map fst example_inputs),
          Print (InvalidMimeType ''application/json'' ''n.json'')]))
   \<and> batch_process_documents example_consts refusing_env ''gs://out'' ''in'' '''' 2 (example_inputs, [])
     = (Inl (ApiError ''ServiceUnavailable''),
        (example_inputs,
         [ListBlobs ''in'' '''' (map fst example_inputs),
          Print (InvalidMimeType ''application/json'' ''n.json''),
          Print (ProcessingBatch 0 2),
          BatchProcessDocuments
            (request_of example_consts ''gs://out''
               [gcs_document_of ''in'' (pdf ''in'' ''a.pdf''), gcs_document_of ''in'' (pdf ''in'' ''b.pdf'')])
            (Inl (ApiError ''ServiceUnavailable''))]))
   \<and> fst (batch_process_documents example_consts mem_env ''gs://out'' ''in'' '''' 2 (example_inputs, []))
       = Inr [''operations/gs://in/a.pdf'', ''operations/gs://in/c.pdf'']
   \<and> fst (batch_process_documents example_consts timeout_env ''gs://out'' ''in'' '''' 2 (example_inputs, []))
       = Inl (ApiError ''DeadlineExceeded'')
   \<and> map fst (submissions (snd (snd
         (batch_process_documents example_consts timeout_env ''gs://out'' ''in'' '''' 2 (example_inputs, [])))))
       = [request_of example_consts ''gs://out''
            [gcs_document_of ''in'' (pdf ''in'' ''a.pdf''), gcs_document_of ''in'' (pdf ''in'' ''b.pdf'')]]"
proof -
  let ?batches = "[[gcs_document_of ''in'' (pdf ''in'' ''a.pdf''), gcs_document_of ''in'' (pdf ''in'' ''b.pdf'')],
             [gcs_document_of ''in'' (pdf ''in'' ''c.pdf'')]]"
  let ?s1 = "(example_inputs,
         [ListBlobs ''in'' '''' (map fst example_inputs),
          Print (InvalidMimeType ''application/json'' ''n.json'')])"
  have cb: "create_batches example_consts refusing_env ''in'' '''' 2 (example_inputs, []) = (Inr ?batches, ?s1)"
    by (simp add: example_defs create_batches_def refusing_env_def)
  have cbm: "create_batches example_consts mem_env ''in'' '''' 2 (example_inputs, []) = (Inr ?batches, ?s1)"
    by (simp add: example_defs create_batches_def)
  have cbt: "create_batches example_consts timeout_env ''in'' '''' 2 (example_inputs, []) = (Inr ?batches, ?s1)"
    by (simp add: example_defs create_batches_def timeout_env_def)
  have run: "batch_process_documents example_consts refusing_env ''gs://out'' ''in'' '''' 2 (example_inputs, [])
     = (Inl (ApiError ''ServiceUnavailable''),
        (example_inputs,
         [ListBlobs ''in'' '''' (map fst example_inputs),
          Print (InvalidMimeType ''application/json'' ''n.json''),
          Print (ProcessingBatch 0 2),
          BatchProcessDocuments
            (request_of example_consts ''gs://out''
               [gcs_document_of ''in'' (pdf ''in'' ''a.pdf''), gcs_document_of ''in'' (pdf ''in'' ''b.pdf'')])
            (Inl (ApiError ''ServiceUnavailable''))]))"
    by (simp add: batch_process_documents_def cb) (simp add: submit_defs)
  have evm: "fst (batch_process_documents example_consts mem_env ''gs://out'' ''in'' '''' 2 (example_inputs, []))
       = Inr [''operations/gs://in/a.pdf'', ''operations/gs://in/c.pdf'']"
    by (simp add: batch_process_documents_def cbm) (simp add: submit_defs)
  have evt: "fst (batch_process_documents example_consts timeout_env ''gs://out'' ''in'' '''' 2 (example_inputs, []))
       = Inl (ApiError ''DeadlineExceeded'')"
    "map fst (submissions (snd (snd
         (batch_process_documents example_consts timeout_env ''gs://out'' ''in'' '''' 2 (example_inputs, [])))))
       = [request_of example_consts ''gs://out''
            [gcs_document_of ''in'' (pdf ''in'' ''a.pdf''), gcs_document_of ''in'' (pdf ''in'' ''b.pdf'')]]"
    by (simp_all add: batch_process_documents_def cbt) (simp_all add: submit_defs)
  from batch_process_documents_submits [OF cb run] cb run evm evt show ?thesis by blast
qed

text \<open>
  Claim C10. When the size check passes and no object of the listing has an accepted
  content type, \<open>_batch_process_documents\<close> makes exactly one submission, with an empty
  document list; whenever it returns, it returns exactly one operation name, and it
  does return the name of that job when the submission and the wait succeed.
\<close>

theorem batch_process_documents_empty_listing:
  assumes B: "B \<le> BATCH_MAX_FILES c"
      and none: "accepted_blobs c (list_blobs env (fst s) ib ip) = []"
  shows "\<exists>ext. snd (snd (batch_process_documents c env uri ib ip B s)) = snd s @ ext
     \<and> submissions ext
         = [(request_of c uri [], fst (client_batch_process_documents env (fst s) (request_of c uri [])))]
     \<and> (\<forall>ids. fst (batch_process_documents c env uri ib ip B s) = Inr ids \<longrightarrow> length ids = 1)
     \<and> (\<forall>n w1 w2. client_batch_process_documents env (fst s) (request_of c uri []) = (Inr n, w1)
           \<and> operation_result env w1 n (TIMEOUT c) = (None, w2)
           \<longrightarrow> fst (batch_process_documents c env uri ib ip B s) = Inr [n])"
proof -
  let ?blobs = "list_blobs env (fst s) ib ip"
  let ?req = "request_of c uri []"
  from B obtain bs' b' tr' where
    l: "create_batches_loop c ib B ?blobs [] [] (snd s @ [ListBlobs ib ip ?blobs]) = (bs', b', tr')"
    and r: "create_batches c env ib ip B s = (Inr (bs' @ [b']), (fst s, tr'))"
    by (rule create_batches_Inr)
  from loop_empty[OF none, of ib B "[]" "[]" "snd s @ [ListBlobs ib ip ?blobs]"] l
  have e: "bs' = []" "b' = []" by auto
  from loop_trace[OF l] obtain pre where tr': "tr' = snd s @ pre" and nosub: "submissions pre = []"
    by (simp add: submissions_prints)
  have run: "batch_process_documents c env uri ib ip B s
      = batch_process_loop c env (processor_path (PROJECT_ID c) (LOCATION c) (PROCESSOR_ID c)) uri 0
          [[]] [] (fst s, tr')"
    using r e by (simp add: batch_process_documents_def Let_def del: batch_process_loop.simps)
  obtain o1 w1 where sub: "client_batch_process_documents env (fst s) ?req = (o1, w1)"
    by (cases "client_batch_process_documents env (fst s) ?req")
  show ?thesis
  proof (cases o1)
    case (Inl err)
    with sub run tr' nosub show ?thesis
      by (auto simp: request_of_def submissions_append Let_def)
  next
    case (Inr n)
    obtain o2 w2 where wt: "operation_result env w1 n (TIMEOUT c) = (o2, w2)"
      by (cases "operation_result env w1 n (TIMEOUT c)")
    show ?thesis
    proof (cases o2)
      case None
      with Inr sub wt run tr' nosub show ?thesis
        by (auto simp: request_of_def submissions_append Let_def)
    next
      case (Some err)
      with Inr sub wt run tr' nosub show ?thesis
        by (auto simp: request_of_def submissions_append Let_def)
    qed
  qed
qed

theorem batch_process_documents_empty_listing_witness:
  "2 \<le> BATCH_MAX_FILES example_consts
   \<and> accepted_blobs example_consts
        (list_blobs mem_env [(json_blob ''in'' ''n.json'', ''{}'')] ''in'' '''') = []
   \<and> batch_process_documents example_consts mem_env ''gs://out'' ''in'' '''' 2
        ([(json_blob ''in'' ''n.json'', ''{}'')], [])
      = (Inr [''operations/empty''],
         ([(json_blob ''in'' ''n.json'', ''{}'')],
          [ListBlobs ''in'' '''' [json_blob ''in'' ''n.json''],
           Print (InvalidMimeType ''application/json'' ''n.json''),
           Print (ProcessingBatch 0 0),
           BatchProcessDocuments (request_of example_consts ''gs://out'' []) (Inr ''operations/empty''),
           Print (WaitingForOperation ''operations/empty''),
           OperationResult ''operations/empty'' 60 None]))"
proof -
  have h1: "2 \<le> BATCH_MAX_FILES example_consts"
    by (simp add: example_defs)
  have h2: "accepted_blobs example_consts
        (list_blobs mem_env (fst ([(json_blob ''in'' ''n.json'', ''{}'')], [])) ''in'' '''') = []"
    by (simp add: example_defs)
  note batch_process_documents_empty_listing [OF h1 h2, of "''gs://out''"]
  with h1 h2 show ?thesis
    by (simp add: example_defs create_batches_def batch_process_documents_def
      mem_batch_process_documents_def mem_operation_result_def request_of_def Let_def)
qed

section \<open>The result harvester\<close>

lemma filter_absent_key: "k \<notin> fst ` set kvs \<Longrightarrow> filter (\<lambda>kv. fst kv \<noteq> k) kvs = kvs"
  by (induction kvs) auto

text \<open>What the block under \<open># Remove large fields\<close> does to a dict: without a
  \<open>pages\<close> key the first \<open>del\<close> raises and the second is never reached.\<close>

lemma remove_large_fields_object:
  "remove_large_fields (JObject kvs) =
     (if ''pages'' \<in> fst ` set kvs
      then Inr (JObject (filter (\<lambda>kv. fst kv \<noteq> ''text'')
                          (filter (\<lambda>kv. fst kv \<noteq> ''pages'') kvs)))
      else Inr (JObject kvs))"
proof (cases "''pages'' \<in> fst ` set kvs")
  case False
  then show ?thesis by (simp add: remove_large_fields_def)
next
  case True
  let ?d1 = "filter (\<lambda>kv. fst kv \<noteq> ''pages'') kvs"
  from True have r: "remove_large_fields (JObject kvs) =
     (case del_item (JObject ?d1) ''text'' of
             Inl (KeyError k) \<Rightarrow> Inr (JObject ?d1)
           | Inl e \<Rightarrow> Inl e
           | Inr d2 \<Rightarrow> Inr d2)"
    by (simp add: remove_large_fields_def)
  show ?thesis
  proof (cases "''text'' \<in> fst ` set ?d1")
    case t: True
    then have "del_item (JObject ?d1) ''text'' = Inr (JObject (filter (\<lambda>kv. fst kv \<noteq> ''text'') ?d1))"
      by (simp only: del_item.simps if_True)
    with r True show ?thesis by (simp only: sum.case if_True)
  next
    case f: False
    then have "del_item (JObject ?d1) ''text'' = Inl (KeyError ''text'')"
      by (simp only: del_item.simps if_False)
    with r True filter_absent_key[OF f] show ?thesis by (simp only: sum.case error.case if_True)
  qed
qed

text \<open>
  Claim C9 asks that the \<open>text\<close> and \<open>pages\<close> fields are both removed from the
  decoded record whichever of them is present. The code does so when \<open>pages\<close> is
  present; a record with \<open>text\<close> and without \<open>pages\<close> keeps its \<open>text\<close>.
\<close>

theorem remove_large_fields_keeps_text:
  "remove_large_fields (JObject [(''text'', JString ''t''), (''entities'', JArray [])])
     = Inr (JObject [(''text'', JString ''t''), (''entities'', JArray [])])
   \<and> remove_large_fields
       (JObject [(''pages'', JArray []), (''text'', JString ''t''), (''entities'', JArray [])])
     = Inr (JObject [(''entities'', JArray [])])"
  by (simp add: remove_large_fields_def)

lemmas harvest_defs = get_document_protos_from_gcs_def example_outputs_def
  example_outputs_schema_def json_blob_def mem_env_def mem_list_blobs_def str_startswith_def
  mem_download_as_text_def same_object_def mem_json_loads_def mem_Document_from_json_def
  remove_large_fields_def Let_def

text \<open>
  Claim C3 asks that a directory with one well-formed and one corrupt record gives the
  one parsed document and a diagnostic, never an exception. The code does so for a
  record that \<open>json.loads\<close> decodes and the document schema rejects; a record that is
  not JSON makes \<open>json.loads\<close> raise outside the \<open>try\<close>, and the call ends with that
  exception, the document parsed before it lost.
\<close>

theorem get_document_protos_corrupt_record:
  \<open>get_document_protos_from_gcs mem_env ''out'' ''dir/'' (example_outputs_schema, [])
     = (Inr [\<lparr>entities = []\<rparr>],
        (example_outputs_schema,
         [ListBlobs ''out'' ''dir/'' [json_blob ''out'' ''dir/0.json'', json_blob ''out'' ''dir/1.json''],
          Print (FetchingFrom ''dir/0.json''),
          DownloadAsText (json_blob ''out'' ''dir/0.json'') (Inr ''{"x": 1}''),
          Print (FailedToParse ''dir/0.json''),
          Print (FetchingFrom ''dir/1.json''),
          DownloadAsText (json_blob ''out'' ''dir/1.json'') (Inr ''{}'')]))
   \<and> get_document_protos_from_gcs mem_env ''out'' ''dir/'' (example_outputs, [])
     = (Inl JSONDecodeError,
        (example_outputs,
         [ListBlobs ''out'' ''dir/'' [json_blob ''out'' ''dir/0.json'', json_blob ''out'' ''dir/1.json''],
          Print (FetchingFrom ''dir/0.json''),
          DownloadAsText (json_blob ''out'' ''dir/0.json'') (Inr ''{}''),
          Print (FetchingFrom ''dir/1.json''),
          DownloadAsText (json_blob ''out'' ''dir/1.json'') (Inr ''{'')]))\<close>
  by (simp add: harvest_defs)

section \<open>Cleanup and archiving\<close>

lemma copies_append: "copies (xs @ ys) = copies xs @ copies ys"
  by (induction xs rule: copies.induct) simp_all

lemma deletes_append: "deletes (xs @ ys) = deletes xs @ deletes ys"
  by (induction xs rule: deletes.induct) simp_all

lemma copy_loop_trace:
  "copy_loop env ib ab src dq s = (r, s') \<Longrightarrow>
   \<exists>ext. snd s' = snd s @ ext \<and> deletes ext = [] \<and> replay env (fst s) ext = Some (fst s')
     \<and> (\<forall>dq'. r = Inr dq' \<longrightarrow> dq' = dq @ src \<and> copies ext = map (copied ab) src)
     \<and> (\<forall>e. r = Inl e \<longrightarrow>
           (\<exists>k < length src.
              copies ext = map (copied ab) (take k src) @ [(src ! k, ab, blob_name (src ! k), Some e)]
              \<and> ext \<noteq> [] \<and> last ext = CopyBlob (src ! k) ab (blob_name (src ! k)) (Some e)))"
proof (induction src arbitrary: dq s)
  case Nil
  then show ?case by auto
next
  case (Cons b rest)
  let ?mv = "Print (Moving ib ab (blob_name b))"
  obtain o1 w1 where cp: "copy_blob env (fst s) b ab (blob_name b) = (o1, w1)"
    by (cases "copy_blob env (fst s) b ab (blob_name b)")
  show ?case
  proof (cases o1)
    case (Some e)
    with Cons.prems cp have r: "r = Inl e"
      and s': "s' = (w1, snd s @ [?mv, CopyBlob b ab (blob_name b) (Some e)])"
      by (auto simp: Let_def)
    show ?thesis
      apply (rule exI[of _ "[?mv, CopyBlob b ab (blob_name b) (Some e)]"])
      using r s' cp Some by (auto intro!: exI[of _ 0])
  next
    case None
    let ?pre = "[?mv, CopyBlob b ab (blob_name b) None]"
    from Cons.prems cp None
    have rec: "copy_loop env ib ab rest (dq @ [b]) (w1, snd s @ ?pre) = (r, s')"
      by (simp add: Let_def)
    have rp: "replay env (fst s) ?pre = Some w1"
      using cp None by simp
    from Cons.IH[OF rec] obtain ext where
      ext: "snd s' = (snd s @ ?pre) @ ext" and nd: "deletes ext = []"
      and rpe: "replay env w1 ext = Some (fst s')"
      and ok: "\<forall>dq'. r = Inr dq' \<longrightarrow> dq' = (dq @ [b]) @ rest \<and> copies ext = map (copied ab) rest"
      and err: "\<forall>e. r = Inl e \<longrightarrow>
           (\<exists>k < length rest.
              copies ext = map (copied ab) (take k rest) @ [(rest ! k, ab, blob_name (rest ! k), Some e)]
              \<and> ext \<noteq> [] \<and> last ext = CopyBlob (rest ! k) ab (blob_name (rest ! k)) (Some e))"
      by auto
    have e1: "snd s' = snd s @ (?pre @ ext)" using ext by simp
    have e2: "deletes (?pre @ ext) = []" using nd by (simp add: deletes_append)
    have e2': "replay env (fst s) (?pre @ ext) = Some (fst s')"
      using rp rpe by (simp only: replay_append option.case)
    have e3: "\<forall>dq'. r = Inr dq' \<longrightarrow> dq' = dq @ (b # rest) \<and> copies (?pre @ ext) = map (copied ab) (b # rest)"
      using ok by (simp add: copies_append copied_def)
    have e4: "\<forall>e. r = Inl e \<longrightarrow>
           (\<exists>k < length (b # rest).
              copies (?pre @ ext) = map (copied ab) (take k (b # rest))
                  @ [((b # rest) ! k, ab, blob_name ((b # rest) ! k), Some e)]
              \<and> ?pre @ ext \<noteq> []
              \<and> last (?pre @ ext) = CopyBlob ((b # rest) ! k) ab (blob_name ((b # rest) ! k)) (Some e))"
    proof (intro allI impI)
      fix e assume "r = Inl e"
      with err obtain k where k: "k < length rest"
        and c: "copies ext = map (copied ab) (take k rest) @ [(rest ! k, ab, blob_name (rest ! k), Some e)]"
        and ne: "ext \<noteq> []" and l: "last ext = CopyBlob (rest ! k) ab (blob_name (rest ! k)) (Some e)"
        by blast
      show "\<exists>k < length (b # rest).
              copies (?pre @ ext) = map (copied ab) (take k (b # rest))
                  @ [((b # rest) ! k, ab, blob_name ((b # rest) ! k), Some e)]
              \<and> ?pre @ ext \<noteq> []
              \<and> last (?pre @ ext) = CopyBlob ((b # rest) ! k) ab (blob_name ((b # rest) ! k)) (Some e)"
        using k c ne l by (intro exI[of _ "Suc k"]) (simp add: copies_append copied_def)
    qed
    from e1 e2 e2' e3 e4 show ?thesis by blast
  qed
qed

lemma delete_loop_trace:
  "delete_loop env dq s = (r, s') \<Longrightarrow>
   \<exists>ext. snd s' = snd s @ ext \<and> copies ext = [] \<and> replay env (fst s) ext = Some (fst s')
     \<and> (r = Inr () \<longrightarrow> deletes ext = map deleted dq)
     \<and> (\<forall>e. r = Inl e \<longrightarrow>
           (\<exists>k < length dq.
              deletes ext = map deleted (take k dq) @ [(dq ! k, Some e)]
              \<and> ext \<noteq> [] \<and> last ext = DeleteBlob (dq ! k) (Some e)))"
proof (induction dq arbitrary: s)
  case Nil
  then show ?case by auto
next
  case (Cons b rest)
  let ?pr = "Print (Deleting (blob_name b))"
  obtain o1 w1 where dl: "blob_delete env (fst s) b = (o1, w1)"
    by (cases "blob_delete env (fst s) b")
  show ?case
  proof (cases o1)
    case (Some e)
    with Cons.prems dl have r: "r = Inl e"
      and s': "s' = (w1, snd s @ [?pr, DeleteBlob b (Some e)])"
      by (auto simp: Let_def)
    show ?thesis
      apply (rule exI[of _ "[?pr, DeleteBlob b (Some e)]"])
      using r s' dl Some by (auto intro!: exI[of _ 0])
  next
    case None
    let ?pre = "[?pr, DeleteBlob b None]"
    from Cons.prems dl None
    have rec: "delete_loop env rest (w1, snd s @ ?pre) = (r, s')"
      by (simp add: Let_def)
    have rp: "replay env (fst s) ?pre = Some w1"
      using dl None by simp
    from Cons.IH[OF rec] obtain ext where
      ext: "snd s' = (snd s @ ?pre) @ ext" and nc: "copies ext = []"
      and rpe: "replay env w1 ext = Some (fst s')"
      and ok: "r = Inr () \<longrightarrow> deletes ext = map deleted rest"
      and err: "\<forall>e. r = Inl e \<longrightarrow>
           (\<exists>k < length rest.
              deletes ext = map deleted (take k rest) @ [(rest ! k, Some e)]
              \<and> ext \<noteq> [] \<and> last ext = DeleteBlob (rest ! k) (Some e))"
      by auto
    have e1: "snd s' = snd s @ (?pre @ ext)" using ext by simp
    have e2: "copies (?pre @ ext) = []" using nc by (simp add: copies_append)
    have e2': "replay env (fst s) (?pre @ ext) = Some (fst s')"
      using rp rpe by (simp only: replay_append option.case)
    have e3: "r = Inr () \<longrightarrow> deletes (?pre @ ext) = map deleted (b # rest)"
      using ok by (simp add: deletes_append deleted_def)
    have e4: "\<forall>e. r = Inl e \<longrightarrow>
           (\<exists>k < length (b # rest).
              deletes (?pre @ ext) = map deleted (take k (b # rest)) @ [((b # rest) ! k, Some e)]
              \<and> ?pre @ ext \<noteq> [] \<and> last (?pre @ ext) = DeleteBlob ((b # rest) ! k) (Some e))"
    proof (intro allI impI)
      fix e assume "r = Inl e"
      with err obtain k where k: "k < length rest"
        and c: "deletes ext = map deleted (take k rest) @ [(rest ! k, Some e)]"
        and ne: "ext \<noteq> []" and l: "last ext = DeleteBlob (rest ! k) (Some e)"
        by blast
      show "\<exists>k < length (b # rest).
              deletes (?pre @ ext) = map deleted (take k (b # rest)) @ [((b # rest) ! k, Some e)]
              \<and> ?pre @ ext \<noteq> [] \<and> last (?pre @ ext) = DeleteBlob ((b # rest) ! k) (Some e)"
        using k c ne l by (intro exI[of _ "Suc k"]) (simp add: deletes_append deleted_def)
    qed
    from e1 e2 e2' e3 e4 show ?thesis by blast
  qed
qed



lemma cleanup_gcs_calls:
  assumes run: "cleanup_gcs env ib ip ob od ab s = (r, s')"
  shows "\<exists>pre post. snd s' = snd s @ pre @ post \<and> deletes pre = [] \<and> copies post = []
     \<and> replay env (fst s) (pre @ post) = Some (fst s')
     \<and> ((\<exists>e k. r = Inl e \<and> k < length (list_blobs env (fst s) ib ip) \<and> post = [] \<and> pre \<noteq> []
            \<and> copies pre = map (copied ab) (take k (list_blobs env (fst s) ib ip))
                 @ [(list_blobs env (fst s) ib ip ! k, ab,
                     blob_name (list_blobs env (fst s) ib ip ! k), Some e)]
            \<and> last pre = CopyBlob (list_blobs env (fst s) ib ip ! k) ab
                 (blob_name (list_blobs env (fst s) ib ip ! k)) (Some e))
        \<or> (copies pre = map (copied ab) (list_blobs env (fst s) ib ip)
            \<and> ((r = Inr ()
                 \<and> deletes post
                     = map deleted (list_blobs env (fst s) ob od @ list_blobs env (fst s) ib ip))
              \<or> (\<exists>e k. r = Inl e
                   \<and> k < length (list_blobs env (fst s) ob od @ list_blobs env (fst s) ib ip)
                   \<and> deletes post
                       = map deleted (take k (list_blobs env (fst s) ob od @ list_blobs env (fst s) ib ip))
                         @ [((list_blobs env (fst s) ob od @ list_blobs env (fst s) ib ip) ! k, Some e)]
                   \<and> post \<noteq> []
                   \<and> last post
                       = DeleteBlob ((list_blobs env (fst s) ob od @ list_blobs env (fst s) ib ip) ! k)
                           (Some e)))))"
proof -
  let ?src = "list_blobs env (fst s) ib ip"
  let ?inter = "list_blobs env (fst s) ob od"
  let ?lists = "[ListBlobs ob od ?inter, ListBlobs ib ip ?src]"
  obtain r1 s1 where cl: "copy_loop env ib ab ?src ?inter (fst s, snd s @ ?lists) = (r1, s1)"
    by (cases "copy_loop env ib ab ?src ?inter (fst s, snd s @ ?lists)")
  from copy_loop_trace[OF cl] obtain ext1 where
    t1: "snd s1 = snd s @ ?lists @ ext1" and nd: "deletes ext1 = []"
    and rp1: "replay env (fst s) ext1 = Some (fst s1)"
    and ok1: "\<forall>dq'. r1 = Inr dq' \<longrightarrow> dq' = ?inter @ ?src \<and> copies ext1 = map (copied ab) ?src"
    and err1: "\<forall>e. r1 = Inl e \<longrightarrow>
           (\<exists>k < length ?src.
              copies ext1 = map (copied ab) (take k ?src) @ [(?src ! k, ab, blob_name (?src ! k), Some e)]
              \<and> ext1 \<noteq> [] \<and> last ext1 = CopyBlob (?src ! k) ab (blob_name (?src ! k)) (Some e))"
    by auto
  have rpl: "replay env (fst s) (?lists @ ext1) = Some (fst s1)"
    using rp1 by simp
  show ?thesis
  proof (cases r1)
    case (Inl e)
    with run cl have r: "r = Inl e" and s': "s' = s1"
      by (simp_all add: cleanup_gcs_def Let_def)
    from err1 Inl obtain k where k: "k < length ?src"
      and c: "copies ext1 = map (copied ab) (take k ?src) @ [(?src ! k, ab, blob_name (?src ! k), Some e)]"
      and ne: "ext1 \<noteq> []" and l: "last ext1 = CopyBlob (?src ! k) ab (blob_name (?src ! k)) (Some e)"
      by blast
    show ?thesis
      apply (rule exI[of _ "?lists @ ext1"])
      apply (rule exI[of _ "[]"])
      using r s' t1 nd k c ne l rp1 by (auto simp: copies_append deletes_append)
  next
    case (Inr dq')
    with ok1 have dq': "dq' = ?inter @ ?src" and c: "copies ext1 = map (copied ab) ?src"
      by simp_all
    from run cl Inr dq' have dl: "delete_loop env (?inter @ ?src) s1 = (r, s')"
      by (simp add: cleanup_gcs_def Let_def)
    from delete_loop_trace[OF dl] obtain ext2 where
      t2: "snd s' = snd s1 @ ext2" and nc: "copies ext2 = []"
      and rp2: "replay env (fst s1) ext2 = Some (fst s')"
      and ok2: "r = Inr () \<longrightarrow> deletes ext2 = map deleted (?inter @ ?src)"
      and err2: "\<forall>e. r = Inl e \<longrightarrow>
           (\<exists>k < length (?inter @ ?src).
              deletes ext2 = map deleted (take k (?inter @ ?src)) @ [((?inter @ ?src) ! k, Some e)]
              \<and> ext2 \<noteq> [] \<and> last ext2 = DeleteBlob ((?inter @ ?src) ! k) (Some e))"
      by auto
    have cases: "r = Inr () \<or> (\<exists>e. r = Inl e)"
      by (cases r) simp_all
    have rpa: "replay env (fst s) ((?lists @ ext1) @ ext2) = Some (fst s')"
      using rpl rp2 by (simp only: replay_append option.case)
    have a1: "snd s' = snd s @ (?lists @ ext1) @ ext2" using t1 t2 by simp
    have a2: "deletes (?lists @ ext1) = []" using nd by (simp add: deletes_append)
    have a3: "copies (?lists @ ext1) = map (copied ab) ?src" using c by (simp add: copies_append)
    have a4: "(r = Inr () \<and> deletes ext2 = map deleted (?inter @ ?src))
              \<or> (\<exists>e k. r = Inl e \<and> k < length (?inter @ ?src)
                   \<and> deletes ext2 = map deleted (take k (?inter @ ?src)) @ [((?inter @ ?src) ! k, Some e)]
                   \<and> ext2 \<noteq> []
                   \<and> last ext2 = DeleteBlob ((?inter @ ?src) ! k) (Some e))"
      using ok2 err2 cases by blast
    show ?thesis
      apply (rule exI[of _ "?lists @ ext1"])
      apply (rule exI[of _ ext2])
      using a1 a2 a3 a4 nc rpa by blast
  qed
qed

lemmas cleanup_defs = example_store_def pdf_def json_blob_def mem_env_def forbidden_env_def
  mem_list_blobs_def str_startswith_def mem_copy_blob_def mem_blob_delete_def same_object_def
  cleanup_gcs_def Let_def

lemma example_cleanup:
  "cleanup_gcs mem_env ''in'' '''' ''out'' ''dir/'' ''arch'' (example_store, [])
     = (Inr (), (example_archived, example_cleanup_trace))"
  by (simp add: cleanup_defs example_archived_def example_cleanup_trace_def)

lemma example_cleanup_forbidden:
  "cleanup_gcs forbidden_env ''in'' '''' ''out'' ''dir/'' ''arch'' (example_store, [])
     = (Inl (ApiError ''Forbidden''),
        (example_store,
         [ListBlobs ''out'' ''dir/'' [json_blob ''out'' ''dir/0.json''],
          ListBlobs ''in'' '''' [pdf ''in'' ''a.pdf'', pdf ''in'' ''b.pdf''],
          Print (Moving ''in'' ''arch'' ''a.pdf''),
          CopyBlob (pdf ''in'' ''a.pdf'') ''arch'' ''a.pdf'' (Some (ApiError ''Forbidden''))]))"
  by (simp add: cleanup_defs)



text \<open>On a storage whose listings reflect its copies and deletes, the listings outside
  the archive bucket only shrink during a cleanup, and every deleted blob leaves them.\<close>

lemma copy_loop_listings:
  "copy_loop env ib ab src dq s = (Inr dq', s') \<Longrightarrow> listings_reflect env \<Longrightarrow> bucket \<noteq> ab \<Longrightarrow>
   set (list_blobs env (fst s') bucket prefix) \<subseteq> set (list_blobs env (fst s) bucket prefix)"
proof (induction src arbitrary: dq s)
  case Nil
  then show ?case by simp
next
  case (Cons b rest)
  obtain o1 w1 where cp: "copy_blob env (fst s) b ab (blob_name b) = (o1, w1)"
    by (cases "copy_blob env (fst s) b ab (blob_name b)")
  show ?case
  proof (cases o1)
    case (Some e)
    with Cons.prems(1) cp show ?thesis by (simp add: Let_def)
  next
    case None
    with Cons.prems(1) cp obtain tr1 where
      rec: "copy_loop env ib ab rest (dq @ [b]) (w1, tr1) = (Inr dq', s')"
      by (auto simp: Let_def)
    from Cons.IH[OF rec Cons.prems(2,3)]
    have "set (list_blobs env (fst s') bucket prefix) \<subseteq> set (list_blobs env w1 bucket prefix)"
      by simp
    moreover from Cons.prems(2,3) cp None
    have "set (list_blobs env w1 bucket prefix) \<subseteq> set (list_blobs env (fst s) bucket prefix)"
      unfolding listings_reflect_def by blast
    ultimately show ?thesis by blast
  qed
qed

lemma delete_loop_listings:
  "delete_loop env dq s = (Inr (), s') \<Longrightarrow> listings_reflect env \<Longrightarrow>
   set (list_blobs env (fst s') bucket prefix)
     \<subseteq> set (list_blobs env (fst s) bucket prefix) - set dq"
proof (induction dq arbitrary: s)
  case Nil
  then show ?case by simp
next
  case (Cons b rest)
  obtain o1 w1 where dl: "blob_delete env (fst s) b = (o1, w1)"
    by (cases "blob_delete env (fst s) b")
  show ?case
  proof (cases o1)
    case (Some e)
    with Cons.prems(1) dl show ?thesis by (simp add: Let_def)
  next
    case None
    with Cons.prems(1) dl obtain tr1 where
      rec: "delete_loop env rest (w1, tr1) = (Inr (), s')"
      by (auto simp: Let_def)
    from Cons.IH[OF rec Cons.prems(2)]
    have "set (list_blobs env (fst s') bucket prefix)
        \<subseteq> set (list_blobs env w1 bucket prefix) - set rest"
      by simp
    moreover from Cons.prems(2) dl None
    have "set (list_blobs env w1 bucket prefix) \<subseteq> set (list_blobs env (fst s) bucket prefix) - {b}"
      unfolding listings_reflect_def by blast
    ultimately show ?thesis by auto
  qed
qed

lemma cleanup_gcs_again:
  assumes run: "cleanup_gcs env ib ip ob od ab s = (Inr (), s')"
      and lr: "listings_reflect env"
      and ab: "ab \<noteq> ib" "ab \<noteq> ob"
  shows "cleanup_gcs env ib ip ob od ab s'
     = (Inr (), (fst s', snd s' @ [ListBlobs ob od [], ListBlobs ib ip []]))"
proof -
  let ?src = "list_blobs env (fst s) ib ip"
  let ?inter = "list_blobs env (fst s) ob od"
  let ?s0 = "(fst s, snd s @ [ListBlobs ob od ?inter, ListBlobs ib ip ?src])"
  obtain r1 s1 where cl: "copy_loop env ib ab ?src ?inter ?s0 = (r1, s1)"
    by (cases "copy_loop env ib ab ?src ?inter ?s0")
  from run cl obtain dq' where r1: "r1 = Inr dq'"
    and dl: "delete_loop env dq' s1 = (Inr (), s')"
    by (cases r1) (auto simp: cleanup_gcs_def Let_def)
  from copy_loop_trace[OF cl] r1 have dq': "dq' = ?inter @ ?src" by auto
  have none: "list_blobs env (fst s') bucket prefix = []"
    if "bucket \<noteq> ab" "set (list_blobs env (fst s) bucket prefix) \<subseteq> set dq'" for bucket prefix
  proof -
    have A: "set (list_blobs env (fst s1) bucket prefix) \<subseteq> set (list_blobs env (fst s) bucket prefix)"
      using copy_loop_listings[OF cl[unfolded r1] lr that(1), of prefix] by simp
    have B: "set (list_blobs env (fst s') bucket prefix)
        \<subseteq> set (list_blobs env (fst s1) bucket prefix) - set dq'"
      by (rule delete_loop_listings[OF dl lr])
    have "x \<notin> set (list_blobs env (fst s') bucket prefix)" for x
    proof
      assume "x \<in> set (list_blobs env (fst s') bucket prefix)"
      with B have x1: "x \<in> set (list_blobs env (fst s1) bucket prefix)" and nq: "x \<notin> set dq'"
        by auto
      from x1 A have "x \<in> set (list_blobs env (fst s) bucket prefix)" by (rule subsetD[rotated])
      with that(2) have "x \<in> set dq'" by (rule subsetD)
      with nq show False by contradiction
    qed
    then show ?thesis by (cases "list_blobs env (fst s') bucket prefix") auto
  qed
  have "list_blobs env (fst s') ob od = []" "list_blobs env (fst s') ib ip = []"
    using ab dq' by (auto intro!: none)
  then show ?thesis
    by (simp add: cleanup_gcs_def Let_def)
qed

lemma mem_copy_blob_keeps:
  "mem_copy_blob w b ab n = (out, w1) \<Longrightarrow> obj \<in> set w1 \<Longrightarrow> blob_bucket (fst obj) \<noteq> ab \<Longrightarrow>
   obj \<in> set w"
  by (auto simp: mem_copy_blob_def Let_def split: option.splits)

lemma mem_blob_delete_removes:
  "mem_blob_delete w b = (None, w1) \<Longrightarrow> obj \<in> set w1 \<Longrightarrow> obj \<in> set w \<and> fst obj \<noteq> b"
  by (auto simp: mem_blob_delete_def same_object_def split: if_splits)

lemma mem_env_listings_reflect: "listings_reflect mem_env"
  unfolding listings_reflect_def
proof (intro conjI allI impI subsetI)
  fix w b destination_bucket new_name w1 bucket prefix x
  assume cp: "copy_blob mem_env w b destination_bucket new_name = (None, w1)"
    and ne: "bucket \<noteq> destination_bucket"
    and x: "x \<in> set (list_blobs mem_env w1 bucket prefix)"
  from x obtain obj where obj: "obj \<in> set w1" "fst obj = x" "blob_bucket x = bucket"
    "str_startswith (blob_name x) prefix"
    by (auto simp: mem_env_def mem_list_blobs_def)
  from cp have "mem_copy_blob w b destination_bucket new_name = (None, w1)"
    by (simp add: mem_env_def)
  from mem_copy_blob_keeps[OF this obj(1)] obj ne have "obj \<in> set w" by simp
  with obj show "x \<in> set (list_blobs mem_env w bucket prefix)"
    by (force simp: mem_env_def mem_list_blobs_def)
next
  fix w b w1 bucket prefix x
  assume dl: "blob_delete mem_env w b = (None, w1)"
    and x: "x \<in> set (list_blobs mem_env w1 bucket prefix)"
  from x obtain obj where obj: "obj \<in> set w1" "fst obj = x" "blob_bucket x = bucket"
    "str_startswith (blob_name x) prefix"
    by (auto simp: mem_env_def mem_list_blobs_def)
  from dl have "mem_blob_delete w b = (None, w1)"
    by (simp add: mem_env_def)
  from mem_blob_delete_removes[OF this obj(1)] obj have "obj \<in> set w" "x \<noteq> b" by simp_all
  with obj show "x \<in> set (list_blobs mem_env w bucket prefix) - {b}"
    by (force simp: mem_env_def mem_list_blobs_def)
qed

lemma refused_first_copy:
  assumes run: "cleanup_gcs env ib ip ob od ab s = (r, s')"
      and src: "list_blobs env (fst s) ib ip = b # rest"
      and cp: "copy_blob env (fst s) b ab (blob_name b) = (Some e, w1)"
  shows "r = Inl e \<and> fst s' = w1"
  using run src cp by (auto simp: cleanup_gcs_def Let_def)

lemma cleanup_gcs_outcomes:
  assumes run: "cleanup_gcs env ib ip ob od ab s = (r, s')"
  shows "\<exists>calls. snd s' = snd s @ calls \<and> replay env (fst s) calls = Some (fst s')
         \<and> ((r = Inr ()
              \<and> copies calls = map (copied ab) (list_blobs env (fst s) ib ip)
              \<and> deletes calls
                  = map deleted (list_blobs env (fst s) ob od @ list_blobs env (fst s) ib ip))
           \<or> (\<exists>e. r = Inl e
              \<and> (\<exists>k < length (list_blobs env (fst s) ib ip).
                    last calls = CopyBlob (list_blobs env (fst s) ib ip ! k) ab
                                   (blob_name (list_blobs env (fst s) ib ip ! k)) (Some e)
                    \<and> copies calls = map (copied ab) (take k (list_blobs env (fst s) ib ip))
                         @ [(list_blobs env (fst s) ib ip ! k, ab,
                             blob_name (list_blobs env (fst s) ib ip ! k), Some e)]
                    \<and> deletes calls = []))
           \<or> (\<exists>e. r = Inl e
              \<and> (\<exists>k < length (list_blobs env (fst s) ob od @ list_blobs env (fst s) ib ip).
                    last calls
                      = DeleteBlob ((list_blobs env (fst s) ob od @ list_blobs env (fst s) ib ip) ! k)
                          (Some e)
                    \<and> copies calls = map (copied ab) (list_blobs env (fst s) ib ip)
                    \<and> deletes calls
                        = map deleted
                            (take k (list_blobs env (fst s) ob od @ list_blobs env (fst s) ib ip))
                          @ [((list_blobs env (fst s) ob od @ list_blobs env (fst s) ib ip) ! k,
                              Some e)])))"
proof -
  define src where "src = list_blobs env (fst s) ib ip"
  define dq where "dq = list_blobs env (fst s) ob od @ list_blobs env (fst s) ib ip"
  from cleanup_gcs_calls[OF run] obtain pre post where
    t: "snd s' = snd s @ pre @ post" and nd: "deletes pre = []" and nc: "copies post = []"
    and rp: "replay env (fst s) (pre @ post) = Some (fst s')"
    and c: "(\<exists>e k. r = Inl e \<and> k < length src \<and> post = [] \<and> pre \<noteq> []
            \<and> copies pre = map (copied ab) (take k src) @ [(src ! k, ab, blob_name (src ! k), Some e)]
            \<and> last pre = CopyBlob (src ! k) ab (blob_name (src ! k)) (Some e))
        \<or> (copies pre = map (copied ab) src
            \<and> ((r = Inr () \<and> deletes post = map deleted dq)
              \<or> (\<exists>e k. r = Inl e \<and> k < length dq
                   \<and> deletes post = map deleted (take k dq) @ [(dq ! k, Some e)]
                   \<and> post \<noteq> []
                   \<and> last post = DeleteBlob (dq ! k) (Some e))))"
    unfolding src_def dq_def by blast
  define calls where "calls = pre @ post"
  have cc: "copies calls = copies pre" and dd: "deletes calls = deletes post"
    using nd nc by (simp_all add: calls_def copies_append deletes_append)
  from c consider
      (copy) e k where "r = Inl e" "k < length src" "post = []" "pre \<noteq> []"
        "copies pre = map (copied ab) (take k src) @ [(src ! k, ab, blob_name (src ! k), Some e)]"
        "last pre = CopyBlob (src ! k) ab (blob_name (src ! k)) (Some e)"
    | (ok) "copies pre = map (copied ab) src" "r = Inr ()" "deletes post = map deleted dq"
    | (delete) e k where "copies pre = map (copied ab) src" "r = Inl e" "k < length dq"
        "deletes post = map deleted (take k dq) @ [(dq ! k, Some e)]" "post \<noteq> []"
        "last post = DeleteBlob (dq ! k) (Some e)"
    by blast
  then have D: "(r = Inr () \<and> copies calls = map (copied ab) src \<and> deletes calls = map deleted dq)
           \<or> (\<exists>e. r = Inl e
              \<and> (\<exists>k < length src.
                    last calls = CopyBlob (src ! k) ab (blob_name (src ! k)) (Some e)
                    \<and> copies calls = map (copied ab) (take k src)
                         @ [(src ! k, ab, blob_name (src ! k), Some e)]
                    \<and> deletes calls = []))
           \<or> (\<exists>e. r = Inl e
              \<and> (\<exists>k < length dq.
                    last calls = DeleteBlob (dq ! k) (Some e)
                    \<and> copies calls = map (copied ab) src
                    \<and> deletes calls = map deleted (take k dq) @ [(dq ! k, Some e)]))"
  proof cases
    case copy
    have "last calls = last pre" "deletes calls = []"
      using copy(3) nd by (simp_all add: calls_def)
    with copy cc have "\<exists>k < length src.
                    last calls = CopyBlob (src ! k) ab (blob_name (src ! k)) (Some e)
                    \<and> copies calls = map (copied ab) (take k src)
                         @ [(src ! k, ab, blob_name (src ! k), Some e)]
                    \<and> deletes calls = []"
      by (intro exI[of _ k]) simp
    with copy(1) show ?thesis by blast
  next
    case ok
    with cc dd show ?thesis by simp
  next
    case delete
    have "last calls = last post"
      using delete(5) by (simp add: calls_def)
    with delete cc dd have "\<exists>k < length dq.
                    last calls = DeleteBlob (dq ! k) (Some e)
                    \<and> copies calls = map (copied ab) src
                    \<and> deletes calls = map deleted (take k dq) @ [(dq ! k, Some e)]"
      by (intro exI[of _ k]) simp
    with delete(2) show ?thesis by blast
  qed
  from t rp have "snd s' = snd s @ calls" "replay env (fst s) calls = Some (fst s')"
    by (simp_all add: calls_def)
  with D show ?thesis
    unfolding src_def dq_def by blast
qed

text \<open>
  Claim C5, as the code has it. \<open>cleanup_gcs\<close> has no handler. Its trace replays
  against the environment, so every recorded answer is the storage's own, and every
  exception the storage answered to a copy or a delete is the result of the run: the
  failure is not recovered. Either the run returns, every input copied and every queued
  object deleted without an exception; or the copy of the \<open>k\<close>-th input raised, the
  inputs before it have been copied, that copy is the last call and nothing is deleted;
  or the delete of the \<open>k\<close>-th queued object raised (a delete of an object already
  deleted is such a failure), the objects before it have been deleted and that delete
  is the last call. In particular a refused copy of the first input ends the run with
  that exception. On a storage whose listings reflect its copies and deletes, with an
  archive bucket that is neither the input nor the output bucket, running cleanup again
  after a run that returned finds both listings empty, copies and deletes nothing, and
  returns.
\<close>

theorem cleanup_gcs_failure_ends_run:
  "(cleanup_gcs env ib ip ob od ab s = (r, s') \<longrightarrow>
      (\<exists>calls. snd s' = snd s @ calls \<and> replay env (fst s) calls = Some (fst s')
         \<and> (\<forall>x \<in> set (copies calls). \<forall>e. snd (snd (snd x)) = Some e \<longrightarrow> r = Inl e)
         \<and> (\<forall>x \<in> set (deletes calls). \<forall>e. snd x = Some e \<longrightarrow> r = Inl e)
         \<and> ((r = Inr ()
              \<and> copies calls = map (copied ab) (list_blobs env (fst s) ib ip)
              \<and> deletes calls
                  = map deleted (list_blobs env (fst s) ob od @ list_blobs env (fst s) ib ip))
           \<or> (\<exists>e. r = Inl e
              \<and> (\<exists>k < length (list_blobs env (fst s) ib ip).
                    last calls = CopyBlob (list_blobs env (fst s) ib ip ! k) ab
                                   (blob_name (list_blobs env (fst s) ib ip ! k)) (Some e)
                    \<and> copies calls = map (copied ab) (take k (list_blobs env (fst s) ib ip))
                         @ [(list_blobs env (fst s) ib ip ! k, ab,
                             blob_name (list_blobs env (fst s) ib ip ! k), Some e)]
                    \<and> deletes calls = []))
           \<or> (\<exists>e. r = Inl e
              \<and> (\<exists>k < length (list_blobs env (fst s) ob od @ list_blobs env (fst s) ib ip).
                    last calls
                      = DeleteBlob ((list_blobs env (fst s) ob od @ list_blobs env (fst s) ib ip) ! k)
                          (Some e)
                    \<and> copies calls = map (copied ab) (list_blobs env (fst s) ib ip)
                    \<and> deletes calls
                        = map deleted
                            (take k (list_blobs env (fst s) ob od @ list_blobs env (fst s) ib ip))
                          @ [((list_blobs env (fst s) ob od @ list_blobs env (fst s) ib ip) ! k,
                              Some e)])))
         \<and> (\<forall>b rest e w1. list_blobs env (fst s) ib ip = b # rest
               \<and> copy_blob env (fst s) b ab (blob_name b) = (Some e, w1)
               \<longrightarrow> r = Inl e \<and> fst s' = w1)))
   \<and> (listings_reflect env \<and> ab \<noteq> ib \<and> ab \<noteq> ob
        \<and> cleanup_gcs env ib ip ob od ab s = (Inr (), s') \<longrightarrow>
        cleanup_gcs env ib ip ob od ab s'
          = (Inr (), (fst s', snd s' @ [ListBlobs ob od [], ListBlobs ib ip []])))"
proof (intro conjI impI)
  assume run: "cleanup_gcs env ib ip ob od ab s = (r, s')"
  define src where "src = list_blobs env (fst s) ib ip"
  define dq where "dq = list_blobs env (fst s) ob od @ list_blobs env (fst s) ib ip"
  from cleanup_gcs_outcomes[OF run] obtain calls where
    t: "snd s' = snd s @ calls" and rp: "replay env (fst s) calls = Some (fst s')"
    and D: "(r = Inr () \<and> copies calls = map (copied ab) src \<and> deletes calls = map deleted dq)
           \<or> (\<exists>e. r = Inl e
              \<and> (\<exists>k < length src.
                    last calls = CopyBlob (src ! k) ab (blob_name (src ! k)) (Some e)
                    \<and> copies calls = map (copied ab) (take k src)
                         @ [(src ! k, ab, blob_name (src ! k), Some e)]
                    \<and> deletes calls = []))
           \<or> (\<exists>e. r = Inl e
              \<and> (\<exists>k < length dq.
                    last calls = DeleteBlob (dq ! k) (Some e)
                    \<and> copies calls = map (copied ab) src
                    \<and> deletes calls = map deleted (take k dq) @ [(dq ! k, Some e)]))"
    unfolding src_def dq_def by blast
  from D consider
      (ok) "copies calls = map (copied ab) src" "deletes calls = map deleted dq"
    | (copy) e k where "r = Inl e"
        "copies calls = map (copied ab) (take k src) @ [(src ! k, ab, blob_name (src ! k), Some e)]"
        "deletes calls = []"
    | (delete) e k where "r = Inl e" "copies calls = map (copied ab) src"
        "deletes calls = map deleted (take k dq) @ [(dq ! k, Some e)]"
    by blast
  then have p: "(\<forall>x \<in> set (copies calls). \<forall>e. snd (snd (snd x)) = Some e \<longrightarrow> r = Inl e)
         \<and> (\<forall>x \<in> set (deletes calls). \<forall>e. snd x = Some e \<longrightarrow> r = Inl e)"
  proof cases
    case ok
    then show ?thesis
      by (auto simp: copied_def deleted_def)
  next
    case copy
    then show ?thesis
      by (auto simp: copied_def deleted_def)
  next
    case delete
    then show ?thesis
      by (auto simp: copied_def deleted_def)
  qed
  have first: "\<forall>b rest e w1. list_blobs env (fst s) ib ip = b # rest
               \<and> copy_blob env (fst s) b ab (blob_name b) = (Some e, w1)
               \<longrightarrow> r = Inl e \<and> fst s' = w1"
    using refused_first_copy[OF run] by blast
  note p1 = p[THEN conjunct1] and p2 = p[THEN conjunct2]
  from t rp p1 p2 D first
  show "\<exists>calls. snd s' = snd s @ calls \<and> replay env (fst s) calls = Some (fst s')
         \<and> (\<forall>x \<in> set (copies calls). \<forall>e. snd (snd (snd x)) = Some e \<longrightarrow> r = Inl e)
         \<and> (\<forall>x \<in> set (deletes calls). \<forall>e. snd x = Some e \<longrightarrow> r = Inl e)
         \<and> ((r = Inr ()
              \<and> copies calls = map (copied ab) (list_blobs env (fst s) ib ip)
              \<and> deletes calls
                  = map deleted (list_blobs env (fst s) ob od @ list_blobs env (fst s) ib ip))
           \<or> (\<exists>e. r = Inl e
              \<and> (\<exists>k < length (list_blobs env (fst s) ib ip).
                    last calls = CopyBlob (list_blobs env (fst s) ib ip ! k) ab
                                   (blob_name (list_blobs env (fst s) ib ip ! k)) (Some e)
                    \<and> copies calls = map (copied ab) (take k (list_blobs env (fst s) ib ip))
                         @ [(list_blobs env (fst s) ib ip ! k, ab,
                             blob_name (list_blobs env (fst s) ib ip ! k), Some e)]
                    \<and> deletes calls = []))
           \<or> (\<exists>e. r = Inl e
              \<and> (\<exists>k < length (list_blobs env (fst s) ob od @ list_blobs env (fst s) ib ip).
                    last calls
                      = DeleteBlob ((list_blobs env (fst s) ob od @ list_blobs env (fst s) ib ip) ! k)
                          (Some e)
                    \<and> copies calls = map (copied ab) (list_blobs env (fst s) ib ip)
                    \<and> deletes calls
                        = map deleted
                            (take k (list_blobs env (fst s) ob od @ list_blobs env (fst s) ib ip))
                          @ [((list_blobs env (fst s) ob od @ list_blobs env (fst s) ib ip) ! k,
                              Some e)])))
         \<and> (\<forall>b rest e w1. list_blobs env (fst s) ib ip = b # rest
               \<and> copy_blob env (fst s) b ab (blob_name b) = (Some e, w1)
               \<longrightarrow> r = Inl e \<and> fst s' = w1)"
    unfolding src_def dq_def by (intro exI[of _ calls] conjI) assumption+
next
  assume "listings_reflect env \<and> ab \<noteq> ib \<and> ab \<noteq> ob
        \<and> cleanup_gcs env ib ip ob od ab s = (Inr (), s')"
  then show "cleanup_gcs env ib ip ob od ab s'
          = (Inr (), (fst s', snd s' @ [ListBlobs ob od [], ListBlobs ib ip []]))"
    using cleanup_gcs_again[of env ib ip ob od ab s s'] by blast
qed

theorem cleanup_gcs_failure_ends_run_witness:
  "cleanup_gcs forbidden_env ''in'' '''' ''out'' ''dir/'' ''arch'' (example_store, [])
     = (Inl (ApiError ''Forbidden''),
        (example_store,
         [ListBlobs ''out'' ''dir/'' [json_blob ''out'' ''dir/0.json''],
          ListBlobs ''in'' '''' [pdf ''in'' ''a.pdf'', pdf ''in'' ''b.pdf''],
          Print (Moving ''in'' ''arch'' ''a.pdf''),
          CopyBlob (pdf ''in'' ''a.pdf'') ''arch'' ''a.pdf'' (Some (ApiError ''Forbidden''))]))
   \<and> list_blobs forbidden_env example_store ''in'' '''' = [pdf ''in'' ''a.pdf'', pdf ''in'' ''b.pdf'']
   \<and> copy_blob forbidden_env example_store (pdf ''in'' ''a.pdf'') ''arch'' ''a.pdf''
       = (Some (ApiError ''Forbidden''), example_store)
   \<and> listings_reflect mem_env \<and> ''arch'' \<noteq> ''in'' \<and> ''arch'' \<noteq> ''out''
   \<and> cleanup_gcs mem_env ''in'' '''' ''out'' ''dir/'' ''arch'' (example_store, [])
     = (Inr (), (example_archived, example_cleanup_trace))
   \<and> cleanup_gcs mem_env ''in'' '''' ''out'' ''dir/'' ''arch'' (example_archived, example_cleanup_trace)
     = (Inr (), (example_archived,
          example_cleanup_trace @ [ListBlobs ''out'' ''dir/'' [], ListBlobs ''in'' '''' []]))"
proof -
  have l: "list_blobs forbidden_env example_store ''in'' '''' = [pdf ''in'' ''a.pdf'', pdf ''in'' ''b.pdf'']"
    and cp: "copy_blob forbidden_env example_store (pdf ''in'' ''a.pdf'') ''arch'' ''a.pdf''
       = (Some (ApiError ''Forbidden''), example_store)"
    by (simp_all add: cleanup_defs)
  have ne: "''arch'' \<noteq> ''in''" "''arch'' \<noteq> ''out''" by simp_all
  from cleanup_gcs_failure_ends_run
    [of mem_env "''in''" "''''" "''out''" "''dir/''" "''arch''" "(example_store, [])"
      "Inr ()" "(example_archived, example_cleanup_trace)", THEN conjunct2]
    mem_env_listings_reflect ne example_cleanup
  have again: "cleanup_gcs mem_env ''in'' '''' ''out'' ''dir/'' ''arch''
      (example_archived, example_cleanup_trace)
     = (Inr (), (example_archived,
          example_cleanup_trace @ [ListBlobs ''out'' ''dir/'' [], ListBlobs ''in'' '''' []]))"
    by simp
  let ?T = "[ListBlobs ''out'' ''dir/'' [json_blob ''out'' ''dir/0.json''],
          ListBlobs ''in'' '''' [pdf ''in'' ''a.pdf'', pdf ''in'' ''b.pdf''],
          Print (Moving ''in'' ''arch'' ''a.pdf''),
          CopyBlob (pdf ''in'' ''a.pdf'') ''arch'' ''a.pdf'' (Some (ApiError ''Forbidden''))]"
  note refused = cleanup_gcs_failure_ends_run
    [of forbidden_env "''in''" "''''" "''out''" "''dir/''" "''arch''" "(example_store, [])"
      "Inl (ApiError ''Forbidden'')" "(example_store, ?T)", THEN conjunct1, THEN mp,
      OF example_cleanup_forbidden]
  from example_cleanup_forbidden l cp mem_env_listings_reflect ne example_cleanup again refused
  show ?thesis by (intro conjI)
qed

text \<open>
  The claim as stated fails: with a storage that refuses the copy of the first of two
  inputs, cleanup ends with that exception, the second input is never tried and the
  store is unchanged; and when the input and output locations coincide, the second
  delete of the same object raises and ends the run.
\<close>

theorem cleanup_gcs_failure_counterexample:
  "cleanup_gcs forbidden_env ''in'' '''' ''out'' ''dir/'' ''arch'' (example_store, [])
     = (Inl (ApiError ''Forbidden''),
        (example_store,
         [ListBlobs ''out'' ''dir/'' [json_blob ''out'' ''dir/0.json''],
          ListBlobs ''in'' '''' [pdf ''in'' ''a.pdf'', pdf ''in'' ''b.pdf''],
          Print (Moving ''in'' ''arch'' ''a.pdf''),
          CopyBlob (pdf ''in'' ''a.pdf'') ''arch'' ''a.pdf'' (Some (ApiError ''Forbidden''))]))
   \<and> cleanup_gcs mem_env ''in'' '''' ''in'' '''' ''arch'' ([(pdf ''in'' ''a.pdf'', ''A'')], [])
     = (Inl (ApiError ''NotFound''),
        ([(pdf ''arch'' ''a.pdf'', ''A'')],
         [ListBlobs ''in'' '''' [pdf ''in'' ''a.pdf''],
          ListBlobs ''in'' '''' [pdf ''in'' ''a.pdf''],
          Print (Moving ''in'' ''arch'' ''a.pdf''),
          CopyBlob (pdf ''in'' ''a.pdf'') ''arch'' ''a.pdf'' None,
          Print (Deleting ''a.pdf''),
          DeleteBlob (pdf ''in'' ''a.pdf'') None,
          Print (Deleting ''a.pdf''),
          DeleteBlob (pdf ''in'' ''a.pdf'') (Some (ApiError ''NotFound''))]))"
  by (simp add: cleanup_defs)

end
